theory Spec2Isabelle
  imports Main "HOL-Library.Sublist"
begin

section \<open>Conventions\<close>

text \<open>
  The development embeds the agent orchestration engine of the repository: token usage,
  the loop detector, the context manager's pruning, the LLM client's retry loop and
  tool-call assembly, the approval manager, the tool registry's invocation pipeline and
  the sub-agent tool.

  JavaScript strings are modelled as \<open>string\<close> (a list of code units), token counts and
  millisecond timestamps as \<open>nat\<close>. A value that the source tests for truthiness is
  modelled so that the test is explicit: an optional string is truthy when it is present
  and not empty, an optional object when it is present.
\<close>

definition truthy_str :: "string option \<Rightarrow> bool" where
  "truthy_str s = (case s of None \<Rightarrow> False | Some t \<Rightarrow> t \<noteq> [])"

definition or_str :: "string option \<Rightarrow> string \<Rightarrow> string" where
  \<comment> \<open>\<open>s || d\<close> for an optional string \<open>s\<close>\<close>
  "or_str s d = (case s of None \<Rightarrow> d | Some t \<Rightarrow> if t = [] then d else t)"

definition digit_char :: "nat \<Rightarrow> char" where
  "digit_char d = ''0123456789'' ! d"

function show_nat :: "nat \<Rightarrow> string" where
  \<comment> \<open>the decimal rendering of a non-negative integer inside a template literal\<close>
  "show_nat n = (if n < 10 then [digit_char n] else show_nat (n div 10) @ [digit_char (n mod 10)])"
  by pat_completeness auto
termination
  by (relation "measure (\<lambda>n. n)") auto

declare show_nat.simps [simp del]

section \<open>Token usage (client/llm\_client.ts, context/manager.ts)\<close>

record TokenUsage =
  promptTokens :: nat
  completionTokens :: nat
  totalTokens :: nat
  cachedTokens :: nat

definition TokenUsage_new :: TokenUsage where
  \<comment> \<open>\<open>new TokenUsage()\<close>: every component defaults to 0\<close>
  "TokenUsage_new = \<lparr>promptTokens = 0, completionTokens = 0, totalTokens = 0, cachedTokens = 0\<rparr>"

definition TokenUsage_add :: "TokenUsage \<Rightarrow> TokenUsage \<Rightarrow> TokenUsage" where
  \<comment> \<open>the components are token counts: natural numbers, on which the addition of the
     source is exact as long as the sums stay below \<open>2^53\<close>\<close>
  "TokenUsage_add this other =
     \<lparr>promptTokens = promptTokens this + promptTokens other,
      completionTokens = completionTokens this + completionTokens other,
      totalTokens = totalTokens this + totalTokens other,
      cachedTokens = cachedTokens this + cachedTokens other\<rparr>"

section \<open>Loop detector (context/loop\_detector.ts)\<close>

definition maxExactRepeats :: nat where "maxExactRepeats = 3"
definition maxCycleLength :: nat where "maxCycleLength = 3"
definition maxHistorySize :: nat where "maxHistorySize = 20"

definition slice_last :: "nat \<Rightarrow> 'a list \<Rightarrow> 'a list" where
  \<comment> \<open>\<open>xs.slice(-n)\<close> for \<open>n > 0\<close>: the last \<open>n\<close> elements, all of them when there are fewer\<close>
  "slice_last n xs = drop (length xs - n) xs"

definition pushSignature :: "string \<Rightarrow> string list \<Rightarrow> string list" where
  \<comment> \<open>the tail of \<open>recordAction\<close>: push the signature, shift when over 20 entries\<close>
  "pushSignature signature history =
     (let h = history @ [signature]
      in if length h > maxHistorySize then tl h else h)"

function cycleSearch :: "string list \<Rightarrow> nat \<Rightarrow> string option" where
  \<comment> \<open>the \<open>for (cycleLen = 2; cycleLen <= min(...); cycleLen++)\<close> loop; two arrays of strings
     have the same \<open>JSON.stringify\<close> exactly when they are equal\<close>
  "cycleSearch history cycleLen =
     (if cycleLen \<le> min maxCycleLength (length history div 2) then
        (let recent = slice_last (cycleLen * 2) history;
             firstHalf = take cycleLen recent;
             secondHalf = drop cycleLen recent
         in if firstHalf = secondHalf
            then Some (''Detected repeating cycle of length '' @ show_nat cycleLen)
            else cycleSearch history (cycleLen + 1))
      else None)"
  by pat_completeness auto
termination
  by (relation "measure (\<lambda>(h, c). Suc maxCycleLength - c)") auto

declare cycleSearch.simps [simp del]

definition checkForLoop :: "string list \<Rightarrow> string option" where
  "checkForLoop history =
     (if length history < 2 then None
      else if length history \<ge> maxExactRepeats
              \<and> length (remdups (slice_last maxExactRepeats history)) = 1
        then Some (''Same action repeated '' @ show_nat maxExactRepeats @ '' times'')
      else if length history \<ge> maxCycleLength * 2 then cycleSearch history 2
      else None)"

text \<open>The two conditions in the words of the specification.\<close>

definition same_last_three :: "string list \<Rightarrow> bool" where
  "same_last_three history =
     (case slice_last 3 history of [a, b, c] \<Rightarrow> a = b \<and> b = c | _ \<Rightarrow> False)"

definition identical_halves :: "nat \<Rightarrow> string list \<Rightarrow> bool" where
  \<comment> \<open>the last \<open>2L\<close> signatures exist and consist of two identical halves\<close>
  "identical_halves L history =
     (2 * L \<le> length history
      \<and> take L (slice_last (2 * L) history) = drop L (slice_last (2 * L) history))"

section \<open>Context manager (context/manager.ts, utils/text.ts)\<close>

definition estimateTokens :: "string \<Rightarrow> nat" where
  "estimateTokens text = max 1 (length text div 4)"

definition countTokens :: "string \<Rightarrow> nat" where
  \<comment> \<open>the model name is ignored by the source\<close>
  "countTokens text = estimateTokens text"

record ToolCallRecord =
  call_id :: string
  function_name :: string
  function_arguments :: string

record MessageItem =
  role :: string
  content :: string
  toolCallId :: "string option"
  toolCalls :: "ToolCallRecord list"
  tokenCount :: "nat option"
  prunedAt :: "nat option"

record ContextManager =
  messages :: "MessageItem list"
  latestUsage :: TokenUsage
  totalUsage :: TokenUsage

definition PRUNE_PROTECT_TOKENS :: nat where "PRUNE_PROTECT_TOKENS = 40000"
definition PRUNE_MINIMUM_TOKENS :: nat where "PRUNE_MINIMUM_TOKENS = 20000"

definition addUserMessage :: "string \<Rightarrow> ContextManager \<Rightarrow> ContextManager" where
  "addUserMessage text cm =
     cm\<lparr>messages := messages cm @
        [\<lparr>role = ''user'', content = text, toolCallId = None, toolCalls = [],
          tokenCount = Some (countTokens text), prunedAt = None\<rparr>]\<rparr>"

definition addAssistantMessage ::
  "string option \<Rightarrow> ToolCallRecord list option \<Rightarrow> ContextManager \<Rightarrow> ContextManager" where
  "addAssistantMessage text calls cm =
     cm\<lparr>messages := messages cm @
        [\<lparr>role = ''assistant'', content = or_str text [], toolCallId = None,
          toolCalls = (case calls of None \<Rightarrow> [] | Some cs \<Rightarrow> cs),
          tokenCount = Some (countTokens (or_str text [])), prunedAt = None\<rparr>]\<rparr>"

definition addToolResult :: "string \<Rightarrow> string \<Rightarrow> ContextManager \<Rightarrow> ContextManager" where
  "addToolResult callId text cm =
     cm\<lparr>messages := messages cm @
        [\<lparr>role = ''tool'', content = text, toolCallId = Some callId, toolCalls = [],
          tokenCount = Some (countTokens text), prunedAt = None\<rparr>]\<rparr>"

definition setLatestUsage :: "TokenUsage \<Rightarrow> ContextManager \<Rightarrow> ContextManager" where
  "setLatestUsage u cm = cm\<lparr>latestUsage := u\<rparr>"

definition addUsage :: "TokenUsage \<Rightarrow> ContextManager \<Rightarrow> ContextManager" where
  "addUsage u cm = cm\<lparr>totalUsage := TokenUsage_add (totalUsage cm) u\<rparr>"

definition isToolMessage :: "MessageItem \<Rightarrow> bool" where
  \<comment> \<open>\<open>msg.role === "tool" && msg.toolCallId\<close>\<close>
  "isToolMessage msg = (role msg = ''tool'' \<and> truthy_str (toolCallId msg))"

definition messageTokens :: "MessageItem \<Rightarrow> nat" where
  \<comment> \<open>\<open>msg.tokenCount || countTokens(msg.content)\<close>\<close>
  "messageTokens msg =
     (case tokenCount msg of
        None \<Rightarrow> countTokens (content msg)
      | Some n \<Rightarrow> if n = 0 then countTokens (content msg) else n)"

definition clearedContent :: string where
  "clearedContent = ''[Old tool result content cleared]''"

definition clearMessage :: "nat \<Rightarrow> MessageItem \<Rightarrow> MessageItem" where
  \<comment> \<open>the three assignments of the second loop; the argument is the value of \<open>new Date()\<close>\<close>
  "clearMessage now msg =
     msg\<lparr>content := clearedContent,
         tokenCount := Some (countTokens clearedContent),
         prunedAt := Some now\<rparr>"

fun pruneScan :: "MessageItem list \<Rightarrow> nat \<Rightarrow> nat \<times> nat \<times> nat list \<Rightarrow> nat \<times> nat \<times> nat list" where
  \<comment> \<open>the loop \<open>for (i = length - 1; i >= 0; i--)\<close>: the second argument is \<open>i + 1\<close>, the state
     is \<open>(totalTokens, prunedTokens, toPrune)\<close>; \<open>toPrune\<close> holds the positions of the message
     objects, each stored message being an object of its own\<close>
  "pruneScan msgs 0 st = st"
| "pruneScan msgs (Suc i) (totalT, prunedT, toPrune) =
     (let msg = msgs ! i in
      if isToolMessage msg then
        (if prunedAt msg \<noteq> None then (totalT, prunedT, toPrune)
         else
           (let tokens = messageTokens msg;
                totalT' = totalT + tokens
            in if totalT' > PRUNE_PROTECT_TOKENS
               then pruneScan msgs i (totalT', prunedT + tokens, toPrune @ [i])
               else pruneScan msgs i (totalT', prunedT, toPrune)))
      else pruneScan msgs i (totalT, prunedT, toPrune))"

fun applyPrune :: "(nat \<Rightarrow> nat) \<Rightarrow> nat list \<Rightarrow> nat \<Rightarrow> MessageItem list \<Rightarrow> nat \<times> MessageItem list" where
  \<comment> \<open>the loop \<open>for (const msg of toPrune)\<close>; \<open>clock k\<close> is what the \<open>k\<close>-th \<open>new Date()\<close> reads\<close>
  "applyPrune clock [] prunedCount msgs = (prunedCount, msgs)"
| "applyPrune clock (i # rest) prunedCount msgs =
     applyPrune clock rest (prunedCount + 1) (msgs[i := clearMessage (clock prunedCount) (msgs ! i)])"

definition userMessageCount :: "MessageItem list \<Rightarrow> nat" where
  "userMessageCount msgs = length (filter (\<lambda>msg. role msg = ''user'') msgs)"

definition pruneToolOutputs :: "(nat \<Rightarrow> nat) \<Rightarrow> ContextManager \<Rightarrow> nat \<times> ContextManager" where
  "pruneToolOutputs clock cm =
     (if userMessageCount (messages cm) < 2 then (0, cm)
      else
        (case pruneScan (messages cm) (length (messages cm)) (0, 0, []) of
           (totalT, prunedT, toPrune) \<Rightarrow>
             if prunedT < PRUNE_MINIMUM_TOKENS then (0, cm)
             else
               (case applyPrune clock toPrune 0 (messages cm) of
                  (prunedCount, msgs') \<Rightarrow> (prunedCount, cm\<lparr>messages := msgs'\<rparr>))))"

text \<open>
  The pruning rule in the words of the specification, written without reference to the
  definitions above. A tool message here is a message of role \<open>tool\<close> that carries a
  non-empty tool-call id. Tool messages are visited newest-first until a previously
  pruned one is seen; a visited tool message is a candidate when the tokens accumulated
  from the end of the list up to and including it exceed 40,000.
\<close>

definition answersToolCall :: "MessageItem \<Rightarrow> bool" where
  "answersToolCall msg =
     (role msg = ''tool'' \<and> (case toolCallId msg of None \<Rightarrow> False | Some callId \<Rightarrow> callId \<noteq> []))"

definition storedTokens :: "MessageItem \<Rightarrow> nat" where
  \<comment> \<open>the token count stored with the message, or the estimate of one token per four
     characters, at least one, when none is stored\<close>
  "storedTokens msg =
     (case tokenCount msg of
        Some n \<Rightarrow> if 0 < n then n else max 1 (length (content msg) div 4)
      | None \<Rightarrow> max 1 (length (content msg) div 4))"

definition visited :: "MessageItem list \<Rightarrow> nat \<Rightarrow> bool" where
  \<comment> \<open>no previously pruned tool message at position \<open>i\<close> or later\<close>
  "visited msgs i =
     (\<not> list_ex (\<lambda>msg. answersToolCall msg \<and> prunedAt msg \<noteq> None) (drop i msgs))"

definition tailTokens :: "MessageItem list \<Rightarrow> nat \<Rightarrow> nat" where
  \<comment> \<open>the tokens of the tool messages from position \<open>i\<close> to the end\<close>
  "tailTokens msgs i = sum_list (map storedTokens (filter answersToolCall (drop i msgs)))"

definition isCandidate :: "MessageItem list \<Rightarrow> nat \<Rightarrow> bool" where
  "isCandidate msgs i =
     (i < length msgs \<and> answersToolCall (msgs ! i) \<and> visited msgs i
      \<and> 40000 < tailTokens msgs i)"

definition candidates :: "MessageItem list \<Rightarrow> nat list" where
  \<comment> \<open>the candidate positions, newest first\<close>
  "candidates msgs = rev (filter (isCandidate msgs) [0..<length msgs])"

definition candidateTokens :: "MessageItem list \<Rightarrow> nat" where
  "candidateTokens msgs = sum_list (map (\<lambda>i. storedTokens (msgs ! i)) (candidates msgs))"

definition prunedMessage :: "(nat \<Rightarrow> nat) \<Rightarrow> MessageItem list \<Rightarrow> nat \<Rightarrow> MessageItem" where
  \<comment> \<open>what position \<open>i\<close> holds after a pruning that takes place: a candidate gets the
     placeholder as content, the placeholder's token count, 8, and as \<open>prunedAt\<close> the clock
     reading of its turn (candidates are cleared newest first), and keeps its role, its
     tool-call id and its tool calls; any other message is kept as it is\<close>
  "prunedMessage clock msgs i =
     (if isCandidate msgs i
      then \<lparr>role = role (msgs ! i),
            content = ''[Old tool result content cleared]'',
            toolCallId = toolCallId (msgs ! i),
            toolCalls = toolCalls (msgs ! i),
            tokenCount = Some 8,
            prunedAt = Some (clock (length (filter (isCandidate msgs) [Suc i..<length msgs])))\<rparr>
      else msgs ! i)"

definition prunedMessages :: "(nat \<Rightarrow> nat) \<Rightarrow> MessageItem list \<Rightarrow> MessageItem list" where
  "prunedMessages clock msgs = map (prunedMessage clock msgs) [0..<length msgs]"

subsection \<open>Sample transcripts\<close>

definition userItem :: "string \<Rightarrow> MessageItem" where
  \<comment> \<open>the item \<open>addUserMessage\<close> stores\<close>
  "userItem text = \<lparr>role = ''user'', content = text, toolCallId = None, toolCalls = [],
          tokenCount = Some (countTokens text), prunedAt = None\<rparr>"

definition toolItem :: "string \<Rightarrow> nat \<Rightarrow> MessageItem" where
  \<comment> \<open>a tool result of the given token count\<close>
  "toolItem callId n = \<lparr>role = ''tool'', content = ''output'', toolCallId = Some callId,
          toolCalls = [], tokenCount = Some n, prunedAt = None\<rparr>"

definition transcript7 :: "MessageItem list" where
  \<comment> \<open>two user messages and seven tool results of 10,000 tokens each\<close>
  "transcript7 = [userItem ''hi'', userItem ''go on'', toolItem ''c1'' 10000, toolItem ''c2'' 10000,
     toolItem ''c3'' 10000, toolItem ''c4'' 10000, toolItem ''c5'' 10000, toolItem ''c6'' 10000,
     toolItem ''c7'' 10000]"

definition cm7 :: ContextManager where
  "cm7 = \<lparr>messages = transcript7, latestUsage = TokenUsage_new, totalUsage = TokenUsage_new\<rparr>"

definition cm1 :: ContextManager where
  \<comment> \<open>the same tool results after a single user message\<close>
  "cm1 = \<lparr>messages = tl transcript7, latestUsage = TokenUsage_new, totalUsage = TokenUsage_new\<rparr>"

definition bareToolItem :: "nat \<Rightarrow> MessageItem" where
  \<comment> \<open>a tool result stored with an empty tool-call id, as a resumed session stores a tool
     message whose \<open>tool_call_id\<close> is missing\<close>
  "bareToolItem n = \<lparr>role = ''tool'', content = ''output'', toolCallId = Some [],
          toolCalls = [], tokenCount = Some n, prunedAt = None\<rparr>"

definition cmBare :: ContextManager where
  \<comment> \<open>two user messages and seven tool results of 10,000 tokens each, without call ids\<close>
  "cmBare =
     \<lparr>messages = [userItem ''hi'', userItem ''go on'', bareToolItem 10000, bareToolItem 10000,
                  bareToolItem 10000, bareToolItem 10000, bareToolItem 10000, bareToolItem 10000,
                  bareToolItem 10000],
      latestUsage = TokenUsage_new, totalUsage = TokenUsage_new\<rparr>"

definition cmEdge :: "nat \<Rightarrow> nat \<Rightarrow> ContextManager" where
  \<comment> \<open>two user messages, an older tool result and a newer one of the given token counts\<close>
  "cmEdge older newer =
     \<lparr>messages = [userItem ''hi'', userItem ''go on'', toolItem ''c1'' older, toolItem ''c2'' newer],
      latestUsage = TokenUsage_new, totalUsage = TokenUsage_new\<rparr>"

section \<open>LLM client (client/llm\_client.ts)\<close>

subsection \<open>Stream events\<close>

datatype json =
    JNull
  | JBool bool
  | JNumber int
  | JString string
  | JArray "json list"
  | JObject "(string \<times> json) list"

datatype StreamEventType =
    TEXT_DELTA | MESSAGE_COMPLETE | ERROR | TOOL_CALL_START | TOOL_CALL_DELTA | TOOL_CALL_COMPLETE

record ToolCallDelta =
  delta_callId :: string
  delta_name :: "string option"
  argumentsDelta :: string

record ToolCall =
  callId :: string
  call_name :: "string option"
  args :: json

record StreamEvent =
  ev_type :: StreamEventType
  textDelta :: "string option"
  ev_error :: "string option"
  finishReason :: "string option"
  toolCallDelta :: "ToolCallDelta option"
  toolCall :: "ToolCall option"
  ev_usage :: "TokenUsage option"

definition newStreamEvent :: "StreamEventType \<Rightarrow> StreamEvent" where
  \<comment> \<open>\<open>new StreamEvent(type)\<close>, every optional field undefined\<close>
  "newStreamEvent t =
     \<lparr>ev_type = t, textDelta = None, ev_error = None, finishReason = None,
      toolCallDelta = None, toolCall = None, ev_usage = None\<rparr>"

definition parseToolCallArguments :: "(string \<Rightarrow> json option) \<Rightarrow> string \<Rightarrow> json" where
  \<comment> \<open>the first argument stands for \<open>JSON.parse\<close>: \<open>None\<close> when it throws\<close>
  "parseToolCallArguments JSON_parse argumentsStr =
     (if argumentsStr = [] then JObject []
      else (case JSON_parse argumentsStr of
              Some v \<Rightarrow> v
            | None \<Rightarrow> JObject [(''raw_arguments'', JString argumentsStr)]))"

subsection \<open>Chunks of a streamed completion\<close>

record FunctionDelta =
  fn_name :: "string option"
  fn_arguments :: "string option"

record ToolCallChunk =
  tc_index :: nat
  tc_id :: "string option"
  tc_function :: "FunctionDelta option"

record Delta =
  delta_content :: "string option"
  delta_tool_calls :: "ToolCallChunk list option"

record Choice =
  choice_delta :: Delta
  finish_reason :: "string option"

record RawUsage =
  prompt_tokens :: nat
  completion_tokens :: nat
  total_tokens :: nat
  cached_tokens :: "nat option"

record Chunk =
  chunk_usage :: "RawUsage option"
  chunk_choices :: "Choice list option"

record AssembledCall =
  ac_id :: string
  ac_name :: string
  ac_arguments :: string

record StreamState =
  st_finishReason :: "string option"
  st_usage :: "TokenUsage option"
  st_toolCalls :: "(nat \<times> AssembledCall) list"

definition toTokenUsage :: "RawUsage \<Rightarrow> TokenUsage" where
  "toTokenUsage u =
     \<lparr>promptTokens = prompt_tokens u, completionTokens = completion_tokens u,
      totalTokens = total_tokens u,
      cachedTokens = (case cached_tokens u of None \<Rightarrow> 0 | Some c \<Rightarrow> c)\<rparr>"

definition map_has :: "nat \<Rightarrow> (nat \<times> AssembledCall) list \<Rightarrow> bool" where
  "map_has idx m = (idx \<in> set (map fst m))"

fun map_update :: "nat \<Rightarrow> (AssembledCall \<Rightarrow> AssembledCall) \<Rightarrow> (nat \<times> AssembledCall) list
                     \<Rightarrow> (nat \<times> AssembledCall) list" where
  \<comment> \<open>a field assignment through \<open>toolCalls.get(idx)!\<close>: the entry keeps its place\<close>
  "map_update idx f [] = []"
| "map_update idx f ((k, v) # rest) =
     (if k = idx then (k, f v) # rest else (k, v) # map_update idx f rest)"

definition map_get_id :: "nat \<Rightarrow> (nat \<times> AssembledCall) list \<Rightarrow> string" where
  \<comment> \<open>\<open>toolCalls.get(idx)!.id\<close>, read only after the entry was set\<close>
  "map_get_id idx m = (case map_of m idx of Some v \<Rightarrow> ac_id v | None \<Rightarrow> [])"

definition functionName :: "ToolCallChunk \<Rightarrow> string option" where
  \<comment> \<open>\<open>toolCallDelta.function?.name\<close>\<close>
  "functionName d = (case tc_function d of None \<Rightarrow> None | Some f \<Rightarrow> fn_name f)"

definition functionArguments :: "ToolCallChunk \<Rightarrow> string option" where
  \<comment> \<open>\<open>toolCallDelta.function?.arguments\<close>\<close>
  "functionArguments d = (case tc_function d of None \<Rightarrow> None | Some f \<Rightarrow> fn_arguments f)"

definition toolCallStep ::
  "ToolCallChunk \<Rightarrow> StreamEvent list \<times> (nat \<times> AssembledCall) list
     \<Rightarrow> StreamEvent list \<times> (nat \<times> AssembledCall) list" where
  \<comment> \<open>the body of \<open>for (const toolCallDelta of delta.tool_calls)\<close>; the first component
     collects the events yielded so far\<close>
  "toolCallStep d acc =
     (let idx = tc_index d;
          (evs1, m1) =
            (if \<not> map_has idx (snd acc) then
               (let m0 = snd acc @ [(idx, \<lparr>ac_id = or_str (tc_id d) [], ac_name = [], ac_arguments = []\<rparr>)]
                in if truthy_str (functionName d) then
                     (fst acc @
                        [(newStreamEvent TOOL_CALL_START)
                           \<lparr>toolCallDelta := Some \<lparr>delta_callId = map_get_id idx m0,
                                                    delta_name = functionName d,
                                                    argumentsDelta = []\<rparr>\<rparr>],
                      map_update idx (\<lambda>v. v\<lparr>ac_name := or_str (functionName d) []\<rparr>) m0)
                   else (fst acc, m0))
             else acc)
      in if truthy_str (functionArguments d) then
           (let m2 = map_update idx (\<lambda>v. v\<lparr>ac_arguments := ac_arguments v @ or_str (functionArguments d) []\<rparr>) m1
            in (evs1 @
                  [(newStreamEvent TOOL_CALL_DELTA)
                     \<lparr>toolCallDelta := Some \<lparr>delta_callId = map_get_id idx m2,
                                              delta_name = functionName d,
                                              argumentsDelta = or_str (functionArguments d) []\<rparr>\<rparr>],
                m2))
         else (evs1, m1))"

definition chunkStep :: "Chunk \<Rightarrow> StreamEvent list \<times> StreamState \<Rightarrow> StreamEvent list \<times> StreamState" where
  \<comment> \<open>the body of \<open>for await (const chunk of stream)\<close>\<close>
  "chunkStep chunk acc =
     (let st1 = (case chunk_usage chunk of
                   None \<Rightarrow> snd acc
                 | Some u \<Rightarrow> (snd acc)\<lparr>st_usage := Some (toTokenUsage u)\<rparr>)
      in case chunk_choices chunk of
           None \<Rightarrow> (fst acc, st1)
         | Some [] \<Rightarrow> (fst acc, st1)
         | Some (choice # _) \<Rightarrow>
             (let delta = choice_delta choice;
                  st2 = (if truthy_str (finish_reason choice)
                         then st1\<lparr>st_finishReason := finish_reason choice\<rparr> else st1);
                  evs2 = (if truthy_str (delta_content delta)
                          then fst acc @ [(newStreamEvent TEXT_DELTA)\<lparr>textDelta := delta_content delta\<rparr>]
                          else fst acc)
              in case delta_tool_calls delta of
                   None \<Rightarrow> (evs2, st2)
                 | Some ds \<Rightarrow>
                     (case fold toolCallStep ds (evs2, st_toolCalls st2) of
                        (evs3, m) \<Rightarrow> (evs3, st2\<lparr>st_toolCalls := m\<rparr>))))"

definition initialStreamState :: StreamState where
  "initialStreamState = \<lparr>st_finishReason = None, st_usage = None, st_toolCalls = []\<rparr>"

definition consumeChunks :: "Chunk list \<Rightarrow> StreamEvent list \<times> StreamState" where
  "consumeChunks chunks = fold chunkStep chunks ([], initialStreamState)"

definition toolCallComplete :: "(string \<Rightarrow> json option) \<Rightarrow> AssembledCall \<Rightarrow> StreamEvent" where
  "toolCallComplete JSON_parse tc =
     (newStreamEvent TOOL_CALL_COMPLETE)
       \<lparr>toolCall := Some \<lparr>callId = ac_id tc, call_name = Some (ac_name tc),
                          args = parseToolCallArguments JSON_parse (ac_arguments tc)\<rparr>\<rparr>"

definition messageComplete :: "StreamState \<Rightarrow> StreamEvent" where
  "messageComplete st =
     (newStreamEvent MESSAGE_COMPLETE)\<lparr>finishReason := st_finishReason st, ev_usage := st_usage st\<rparr>"

definition streamResponse :: "(string \<Rightarrow> json option) \<Rightarrow> Chunk list \<Rightarrow> StreamEvent list" where
  \<comment> \<open>the events of a stream that delivers the chunks and ends\<close>
  "streamResponse JSON_parse chunks =
     (case consumeChunks chunks of
        (evs, st) \<Rightarrow>
          evs @ map (toolCallComplete JSON_parse) (map snd (st_toolCalls st)) @ [messageComplete st])"

definition assembledCalls :: "Chunk list \<Rightarrow> AssembledCall list" where
  \<comment> \<open>the tool calls assembled at end of stream, in the order of their first delta\<close>
  "assembledCalls chunks = map snd (st_toolCalls (snd (consumeChunks chunks)))"

definition completedArgs :: "StreamEvent list \<Rightarrow> json list" where
  \<comment> \<open>the arguments attached to the \<open>TOOL_CALL_COMPLETE\<close> events of a run\<close>
  "completedArgs evs =
     concat (map (\<lambda>e. case toolCall e of None \<Rightarrow> [] | Some c \<Rightarrow> [args c])
                 (filter (\<lambda>e. ev_type e = TOOL_CALL_COMPLETE) evs))"

subsection \<open>Requests and the retry loop\<close>

text \<open>
  What a failed request throws, as far as the \<open>catch\<close> block reads it: the client library
  throws error objects, whose \<open>status\<close>, \<open>type\<close> and \<open>message\<close> may each be missing;
  \<open>rendered\<close> is \<open>String(error)\<close>.
\<close>

record ApiError =
  status :: "nat option"
  err_type :: "string option"
  message :: "string option"
  rendered :: string

record RawToolCall =
  raw_id :: string
  raw_name :: string
  raw_arguments :: "string option"

record ResponseMessage =
  msg_content :: "string option"
  msg_tool_calls :: "RawToolCall list option"

record ResponseChoice =
  choice_message :: ResponseMessage
  choice_finish_reason :: "string option"

record Completion =
  resp_choices :: "ResponseChoice list"
  resp_usage :: "RawUsage option"

datatype Action = Yield StreamEvent | Wait nat

definition maxRetries :: nat where "maxRetries = 3"

definition typeError :: ApiError where
  \<comment> \<open>the \<open>TypeError\<close> of reading \<open>message\<close> of \<open>response.choices[0]\<close> when there is no choice\<close>
  "typeError =
     \<lparr>status = None, err_type = None,
      message = Some ''Cannot read properties of undefined (reading 'message')'',
      rendered = ''TypeError: Cannot read properties of undefined (reading 'message')''\<rparr>"

definition notIterableError :: ApiError where
  \<comment> \<open>the \<open>TypeError\<close> of \<open>for await\<close> over an answer that is not a stream\<close>
  "notIterableError =
     \<lparr>status = None, err_type = None, message = Some ''stream is not async iterable'',
      rendered = ''TypeError: stream is not async iterable''\<rparr>"

definition noChoicesError :: ApiError where
  \<comment> \<open>the \<open>TypeError\<close> of reading \<open>response.choices[0]\<close> of an answer without \<open>choices\<close>\<close>
  "noChoicesError =
     \<lparr>status = None, err_type = None,
      message = Some ''Cannot read properties of undefined (reading '0')'',
      rendered = ''TypeError: Cannot read properties of undefined (reading '0')''\<rparr>"

definition nonStreamResponse :: "(string \<Rightarrow> json option) \<Rightarrow> Completion \<Rightarrow> ApiError + StreamEvent" where
  "nonStreamResponse JSON_parse response =
     (case resp_choices response of
        [] \<Rightarrow> Inl typeError
      | choice # _ \<Rightarrow>
          (let msg = choice_message choice;
               text = (if truthy_str (msg_content msg) then msg_content msg else None);
               calls = (case msg_tool_calls msg of
                          None \<Rightarrow> []
                        | Some tcs \<Rightarrow>
                            map (\<lambda>tc. \<lparr>callId = raw_id tc, call_name = Some (raw_name tc),
                                        args = parseToolCallArguments JSON_parse (or_str (raw_arguments tc) [])\<rparr>)
                                tcs)
           in Inr ((newStreamEvent MESSAGE_COMPLETE)
                     \<lparr>textDelta := text,
                      finishReason := (if truthy_str (choice_finish_reason choice)
                                       then choice_finish_reason choice else None),
                      toolCall := (case calls of [] \<Rightarrow> None | c # _ \<Rightarrow> Some c),
                      ev_usage := map_option toTokenUsage (resp_usage response)\<rparr>)))"

datatype Attempt =
    StreamEnds "Chunk list"
    \<comment> \<open>the stream delivers the chunks and ends\<close>
  | StreamThrows "Chunk list" ApiError
    \<comment> \<open>the request, or the stream after these chunks, throws\<close>
  | Responds Completion
    \<comment> \<open>the non-streaming request returns\<close>
  | RequestThrows ApiError

definition attemptOutcome ::
  "(string \<Rightarrow> json option) \<Rightarrow> bool \<Rightarrow> Attempt \<Rightarrow> StreamEvent list \<times> ApiError option" where
  \<comment> \<open>the body of the \<open>try\<close> block: the events it yields, and the error it throws if any;
     the provider answers in the mode it is asked in; a completion where a stream is
     expected cannot be iterated, and a stream where a completion is expected has no
     \<open>choices\<close>\<close>
  "attemptOutcome JSON_parse stream a =
     (if stream then
        (case a of
           StreamEnds chunks \<Rightarrow> (streamResponse JSON_parse chunks, None)
         | StreamThrows chunks e \<Rightarrow> (fst (consumeChunks chunks), Some e)
         | Responds r \<Rightarrow> ([], Some notIterableError)
         | RequestThrows e \<Rightarrow> ([], Some e))
      else
        (case a of
           Responds r \<Rightarrow>
             (case nonStreamResponse JSON_parse r of
                Inl e \<Rightarrow> ([], Some e)
              | Inr ev \<Rightarrow> ([ev], None))
         | RequestThrows e \<Rightarrow> ([], Some e)
         | StreamEnds chunks \<Rightarrow> ([], Some noChoicesError)
         | StreamThrows chunks e \<Rightarrow> ([], Some noChoicesError)))"

definition errorEvent :: "ApiError \<Rightarrow> StreamEvent" where
  \<comment> \<open>\<open>API error: ${error.message || error}\<close>\<close>
  "errorEvent e =
     (newStreamEvent ERROR)\<lparr>ev_error := Some (''API error: '' @ or_str (message e) (rendered e))\<rparr>"

function retryLoop :: "(nat \<Rightarrow> StreamEvent list \<times> ApiError option) \<Rightarrow> nat \<Rightarrow> Action list" where
  \<comment> \<open>\<open>for (attempt = 0; attempt <= maxRetries; attempt++)\<close>; the first argument gives what
     the \<open>try\<close> block of each attempt does\<close>
  "retryLoop outcome attempt =
     (if attempt \<le> maxRetries then
        (case snd (outcome attempt) of
           None \<Rightarrow> map Yield (fst (outcome attempt))
         | Some e \<Rightarrow>
             map Yield (fst (outcome attempt)) @
             (if status e = Some 429 \<and> attempt < maxRetries
              then Wait (2 ^ attempt * 1000) # retryLoop outcome (attempt + 1)
              else if err_type e = Some ''connection_error'' \<and> attempt < maxRetries
              then Wait (2 ^ attempt * 1000) # retryLoop outcome (attempt + 1)
              else [Yield (errorEvent e)]))
      else [])"
  by pat_completeness auto
termination
  by (relation "measure (\<lambda>(f, a). Suc maxRetries - a)") auto

declare retryLoop.simps [simp del]

definition chatCompletion ::
  "(string \<Rightarrow> json option) \<Rightarrow> bool \<Rightarrow> (nat \<Rightarrow> Attempt) \<Rightarrow> Action list" where
  \<comment> \<open>the yielded events and the timer waits, in order; the third argument says what the
     provider does at each attempt\<close>
  "chatCompletion JSON_parse stream provider =
     retryLoop (\<lambda>attempt. attemptOutcome JSON_parse stream (provider attempt)) 0"

text \<open>The retry policy in the words of the specification.\<close>

definition retryable :: "ApiError \<Rightarrow> bool" where
  \<comment> \<open>a rate-limit or a transient connection error\<close>
  "retryable e = (status e = Some 429 \<or> err_type e = Some ''connection_error'')"

definition failsRetryably :: "StreamEvent list \<times> ApiError option \<Rightarrow> bool" where
  "failsRetryably r = (case snd r of None \<Rightarrow> False | Some e \<Rightarrow> retryable e)"

definition lastAttempt :: "(nat \<Rightarrow> StreamEvent list \<times> ApiError option) \<Rightarrow> nat" where
  \<comment> \<open>the first attempt that does not fail retryably, the fourth attempt at the latest\<close>
  "lastAttempt outcome =
     (if \<not> failsRetryably (outcome 0) then 0
      else if \<not> failsRetryably (outcome 1) then 1
      else if \<not> failsRetryably (outcome 2) then 2
      else 3)"

definition waits :: "Action list \<Rightarrow> nat list" where
  "waits tr = concat (map (\<lambda>a. case a of Wait ms \<Rightarrow> [ms] | Yield _ \<Rightarrow> []) tr)"

definition yielded :: "Action list \<Rightarrow> StreamEvent list" where
  "yielded tr = concat (map (\<lambda>a. case a of Yield e \<Rightarrow> [e] | Wait _ \<Rightarrow> []) tr)"

definition errorEvents :: "Action list \<Rightarrow> StreamEvent list" where
  "errorEvents tr = filter (\<lambda>e. ev_type e = ERROR) (yielded tr)"

definition chunkEventType :: "StreamEventType \<Rightarrow> bool" where
  \<comment> \<open>the event kinds yielded while chunks are consumed\<close>
  "chunkEventType t = (t = TEXT_DELTA \<or> t = TOOL_CALL_START \<or> t = TOOL_CALL_DELTA)"

definition chatTrace :: "(nat \<Rightarrow> StreamEvent list \<times> ApiError option) \<Rightarrow> nat \<Rightarrow> Action list" where
  \<comment> \<open>attempts \<open>0..k-1\<close> each followed by their back-off wait, then attempt \<open>k\<close>, then the
     \<open>ERROR\<close> event if attempt \<open>k\<close> failed\<close>
  "chatTrace outcome k =
     concat (map (\<lambda>i. map Yield (fst (outcome i)) @ [Wait (2 ^ i * 1000)]) [0..<k])
     @ map Yield (fst (outcome k))
     @ (case snd (outcome k) of None \<Rightarrow> [] | Some e \<Rightarrow> [Yield (errorEvent e)])"

subsection \<open>Sample requests\<close>

definition rateLimitError :: ApiError where
  "rateLimitError =
     \<lparr>status = Some 429, err_type = None, message = Some ''429 Too Many Requests'',
      rendered = ''Error: 429 Too Many Requests''\<rparr>"

definition connectionError :: ApiError where
  "connectionError =
     \<lparr>status = None, err_type = Some ''connection_error'', message = Some ''Connection error.'',
      rendered = ''Error: Connection error.''\<rparr>"

definition textChunk :: "string \<Rightarrow> Chunk" where
  "textChunk text =
     \<lparr>chunk_usage = None,
      chunk_choices = Some [\<lparr>choice_delta = \<lparr>delta_content = Some text, delta_tool_calls = None\<rparr>,
                             finish_reason = None\<rparr>]\<rparr>"

definition toolChunk :: "ToolCallChunk list \<Rightarrow> Chunk" where
  "toolChunk ds =
     \<lparr>chunk_usage = None,
      chunk_choices = Some [\<lparr>choice_delta = \<lparr>delta_content = None, delta_tool_calls = Some ds\<rparr>,
                             finish_reason = None\<rparr>]\<rparr>"

definition callDelta :: "nat \<Rightarrow> string option \<Rightarrow> string option \<Rightarrow> string option \<Rightarrow> ToolCallChunk" where
  "callDelta idx cid nm as =
     \<lparr>tc_index = idx, tc_id = cid, tc_function = Some \<lparr>fn_name = nm, fn_arguments = as\<rparr>\<rparr>"

definition flakyProvider :: "nat \<Rightarrow> Attempt" where
  \<comment> \<open>rate-limited, then cut off after one text chunk, then rate-limited for good\<close>
  "flakyProvider attempt =
     (if attempt = 0 then RequestThrows rateLimitError
      else if attempt = 1 then StreamThrows [textChunk ''he''] connectionError
      else RequestThrows rateLimitError)"

definition parseSample :: "string \<Rightarrow> json option" where
  \<comment> \<open>\<open>JSON.parse\<close> on the argument strings of the sample stream\<close>
  \<open>parseSample s =
     (if s = ''{"path":"."}'' then Some (JObject [(''path'', JString ''.'')]) else None)\<close>

definition sampleStream :: "Chunk list" where
  \<comment> \<open>three tool calls: well-formed arguments in two fragments, arguments cut short, and
     no arguments at all\<close>
  \<open>sampleStream =
     [toolChunk [callDelta 0 (Some ''call_1'') (Some ''list_dir'') (Some ''{"path":'')],
      toolChunk [callDelta 0 None None (Some ''"."}''),
                 callDelta 1 (Some ''call_2'') (Some ''glob'') (Some ''{"pattern":'')],
      toolChunk [callDelta 2 (Some ''call_3'') (Some ''todo'') None]]\<close>

section \<open>Approval manager (safety/approval.ts)\<close>

subsection \<open>Regular expressions of the pattern tables\<close>

text \<open>
  The pattern tables use literals, character classes, alternatives, optional parts,
  \<open>\s+\<close>, \<open>\s*\<close>, \<open>.*\<close> and \<open>$\<close>. \<open>remainders r s\<close> lists what can be left of \<open>s\<close> after \<open>r\<close>
  has matched a prefix of it; \<open>RegExp.test\<close> succeeds when some match exists, at the
  start of the string for a pattern beginning with \<open>^\<close> and at any position otherwise.
\<close>

datatype cclass =
    Lit char
  | OneOf "char list"
  | Space
  | Dot

datatype rx =
    Str string
  | AnyOf "string list"
  | Chr cclass
  | Seq rx rx
  | Alt rx rx
  | Opt rx
  | Star cclass
  | Plus cclass
  | Eol

record pattern =
  anchored :: bool
  body :: rx

fun in_class :: "cclass \<Rightarrow> char \<Rightarrow> bool" where
  "in_class (Lit a) c = (c = a)"
| "in_class (OneOf as) c = (c \<in> set as)"
| "in_class Space c =
     (c \<in> set [CHR 0x09, CHR 0x0A, CHR 0x0B, CHR 0x0C, CHR 0x0D, CHR 0x20, CHR 0xA0])"
| "in_class Dot c = (c \<notin> set [CHR 0x0A, CHR 0x0D])"

fun startsWith :: "string \<Rightarrow> string \<Rightarrow> bool" where
  \<comment> \<open>\<open>s.startsWith(p)\<close>, the prefix first\<close>
  "startsWith [] s = True"
| "startsWith (a # p) [] = False"
| "startsWith (a # p) (c # s) = (a = c \<and> startsWith p s)"

fun star_remainders :: "cclass \<Rightarrow> string \<Rightarrow> string list" where
  "star_remainders cl [] = [[]]"
| "star_remainders cl (c # s) = (c # s) # (if in_class cl c then star_remainders cl s else [])"

fun remainders :: "rx \<Rightarrow> string \<Rightarrow> string list" where
  "remainders (Str w) s = (if startsWith w s then [drop (length w) s] else [])"
| "remainders (AnyOf ws) s =
     concat (map (\<lambda>w. if startsWith w s then [drop (length w) s] else []) ws)"
| "remainders (Chr cl) s = (case s of [] \<Rightarrow> [] | c # t \<Rightarrow> if in_class cl c then [t] else [])"
| "remainders (Seq a b) s = concat (map (remainders b) (remainders a s))"
| "remainders (Alt a b) s = remainders a s @ remainders b s"
| "remainders (Opt a) s = remainders a s @ [s]"
| "remainders (Star cl) s = star_remainders cl s"
| "remainders (Plus cl) s =
     (case s of [] \<Rightarrow> [] | c # t \<Rightarrow> if in_class cl c then star_remainders cl t else [])"
| "remainders Eol s = (if s = [] then [[]] else [])"

fun search :: "rx \<Rightarrow> string \<Rightarrow> bool" where
  "search r [] = (remainders r [] \<noteq> [])"
| "search r (c # s) = (remainders r (c # s) \<noteq> [] \<or> search r s)"

definition rx_test :: "pattern \<Rightarrow> string \<Rightarrow> bool" where
  "rx_test p s = (if anchored p then remainders (body p) s \<noteq> [] else search (body p) s)"

fun seqs :: "rx list \<Rightarrow> rx" where
  "seqs [] = Str []"
| "seqs [r] = r"
| "seqs (r # rs) = Seq r (seqs rs)"

definition anywhere :: "rx list \<Rightarrow> pattern" where
  "anywhere rs = \<lparr>anchored = False, body = seqs rs\<rparr>"

definition atStart :: "rx list \<Rightarrow> pattern" where
  "atStart rs = \<lparr>anchored = True, body = seqs rs\<rparr>"

definition spaceOrEnd :: rx where
  \<comment> \<open>\<open>(\s|$)\<close>\<close>
  "spaceOrEnd = Alt (Chr Space) Eol"

definition rootOrHome :: rx where
  \<comment> \<open>\<open>[/~]\<close>\<close>
  "rootOrHome = Chr (OneOf ''/~'')"

definition DANGEROUS_PATTERNS :: "pattern list" where
  "DANGEROUS_PATTERNS =
     [anywhere [Str ''rm'', Plus Space,
                Alt (Seq (Str ''-r'') (Opt (Chr (Lit CHR ''f'')))) (Str ''--recursive''),
                Plus Space, rootOrHome],
      anywhere [Str ''rm'', Plus Space, Str ''-r'', Opt (Chr (Lit CHR ''f'')), Plus Space, Str ''*''],
      anywhere [Str ''rmdir'', Plus Space, rootOrHome],
      anywhere [Str ''dd'', Plus Space, Str ''if=''],
      anywhere [Str ''mkfs''],
      anywhere [Str ''fdisk''],
      anywhere [Str ''parted''],
      anywhere [Str ''shutdown''],
      anywhere [Str ''reboot''],
      anywhere [Str ''halt''],
      anywhere [Str ''poweroff''],
      anywhere [Str ''init'', Plus Space, Chr (OneOf ''06'')],
      anywhere [Str ''chmod'', Plus Space, Opt (Seq (Str ''-R'') (Plus Space)), Str ''777'',
                Plus Space, rootOrHome],
      anywhere [Str ''chown'', Plus Space, Str ''-R'', Plus Space, Star Dot, Plus Space, rootOrHome],
      anywhere [Str ''nc'', Plus Space, Str ''-l''],
      anywhere [Str ''netcat'', Plus Space, Str ''-l''],
      anywhere [Str ''curl'', Plus Space, Star Dot, Str ''|'', Star Space, AnyOf [''bash'', ''sh'']],
      anywhere [Str ''wget'', Plus Space, Star Dot, Str ''|'', Star Space, AnyOf [''bash'', ''sh'']],
      anywhere [Str '':()'', Star Space, Str ''{'', Star Space, Str '':|:&'', Star Space, Str ''}'',
                Star Space, Str '';'']]"

definition SAFE_PATTERNS :: "pattern list" where
  "SAFE_PATTERNS =
     [atStart [AnyOf [''ls'', ''dir'', ''pwd'', ''cd'', ''echo'', ''cat'', ''head'', ''tail'', ''less'',
                      ''more'', ''wc''], spaceOrEnd],
      atStart [AnyOf [''find'', ''locate'', ''which'', ''whereis'', ''file'', ''stat''], spaceOrEnd],
      atStart [Str ''git'', Plus Space,
               AnyOf [''status'', ''log'', ''diff'', ''show'', ''branch'', ''remote'', ''tag''], spaceOrEnd],
      atStart [AnyOf [''npm'', ''yarn'', ''pnpm''], Plus Space, AnyOf [''list'', ''ls'', ''outdated''],
               spaceOrEnd],
      atStart [Str ''pip'', Plus Space, AnyOf [''list'', ''show'', ''freeze''], spaceOrEnd],
      atStart [Str ''cargo'', Plus Space, AnyOf [''tree'', ''search''], spaceOrEnd],
      atStart [AnyOf [''grep'', ''awk'', ''sed'', ''cut'', ''sort'', ''uniq'', ''tr'', ''diff'', ''comm''],
               spaceOrEnd],
      atStart [AnyOf [''date'', ''cal'', ''uptime'', ''whoami'', ''id'', ''groups'', ''hostname'',
                      ''uname''], spaceOrEnd],
      atStart [AnyOf [''env'', ''printenv'', ''set''], Eol],
      atStart [AnyOf [''ps'', ''top'', ''htop'', ''pgrep''], spaceOrEnd]]"

definition isDangerousCommand :: "string \<Rightarrow> bool" where
  "isDangerousCommand command = list_ex (\<lambda>p. rx_test p command) DANGEROUS_PATTERNS"

definition isSafeCommand :: "string \<Rightarrow> bool" where
  "isSafeCommand command = list_ex (\<lambda>p. rx_test p command) SAFE_PATTERNS"

subsection \<open>Decisions\<close>

datatype ApprovalPolicy = ON_REQUEST | ON_FAILURE | AUTO | AUTO_EDIT | NEVER | YOLO

datatype ApprovalDecision = APPROVED | REJECTED | NEEDS_CONFIRMATION

record ApprovalContext =
  ctx_toolName :: string
  ctx_params :: json
  isMutating :: bool
  affectedPaths :: "string list"
  command :: "string option"
  isDangerous :: bool

definition assessCommandSafety :: "ApprovalPolicy \<Rightarrow> string \<Rightarrow> ApprovalDecision" where
  "assessCommandSafety approvalPolicy cmd =
     (if approvalPolicy = YOLO then APPROVED
      else if isDangerousCommand cmd then REJECTED
      else if approvalPolicy = NEVER then (if isSafeCommand cmd then APPROVED else REJECTED)
      else if approvalPolicy = AUTO \<or> approvalPolicy = ON_FAILURE then APPROVED
      else if approvalPolicy = AUTO_EDIT
        then (if isSafeCommand cmd then APPROVED else NEEDS_CONFIRMATION)
      else if isSafeCommand cmd then APPROVED
      else NEEDS_CONFIRMATION)"

fun checkPaths :: "(string \<Rightarrow> string \<Rightarrow> string option) \<Rightarrow> string \<Rightarrow> string list \<Rightarrow> bool" where
  \<comment> \<open>the loop over \<open>affectedPaths\<close>: true when it returns \<open>NEEDS_CONFIRMATION\<close>. The first
     argument stands for \<open>relative\<close> of the \<open>path\<close> module, \<open>None\<close> when it throws\<close>
  "checkPaths relative cwd [] = False"
| "checkPaths relative cwd (path # rest) =
     (case relative cwd path of
        None \<Rightarrow> True
      | Some relPath \<Rightarrow> if startsWith ''..'' relPath then True else checkPaths relative cwd rest)"

definition checkApproval ::
  "(string \<Rightarrow> string \<Rightarrow> string option) \<Rightarrow> ApprovalPolicy \<Rightarrow> string \<Rightarrow> ApprovalContext
     \<Rightarrow> ApprovalDecision" where
  "checkApproval relative approvalPolicy cwd context =
     (if \<not> isMutating context then APPROVED
      else if truthy_str (command context)
              \<and> assessCommandSafety approvalPolicy (or_str (command context) []) \<noteq> NEEDS_CONFIRMATION
        then assessCommandSafety approvalPolicy (or_str (command context) [])
      else if checkPaths relative cwd (affectedPaths context) then NEEDS_CONFIRMATION
      else if isDangerous context
        then (if approvalPolicy = YOLO then APPROVED else NEEDS_CONFIRMATION)
      else APPROVED)"

subsection \<open>Relative paths\<close>

text \<open>
  \<open>relative\<close> of the \<open>path\<close> module on POSIX, for absolute paths: both paths are normalised
  (empty and \<open>.\<close> segments dropped, \<open>..\<close> dropping the segment before it), the common
  leading segments are removed, and every remaining segment of the first path becomes
  \<open>..\<close>.
\<close>

fun splitSlash :: "string \<Rightarrow> string \<Rightarrow> string list" where
  \<comment> \<open>the segments between slashes; the first argument is the segment being read\<close>
  "splitSlash seg [] = [seg]"
| "splitSlash seg (c # s) = (if c = CHR ''/'' then seg # splitSlash [] s else splitSlash (seg @ [c]) s)"

fun normalizeSegments :: "string list \<Rightarrow> string list \<Rightarrow> string list" where
  \<comment> \<open>the first argument holds the segments kept so far\<close>
  "normalizeSegments kept [] = kept"
| "normalizeSegments kept (seg # rest) =
     (if seg = [] \<or> seg = ''.'' then normalizeSegments kept rest
      else if seg = ''..'' then normalizeSegments (butlast kept) rest
      else normalizeSegments (kept @ [seg]) rest)"

fun dropCommon :: "string list \<Rightarrow> string list \<Rightarrow> string list \<times> string list" where
  "dropCommon (a # as) (b # bs) = (if a = b then dropCommon as bs else (a # as, b # bs))"
| "dropCommon as bs = (as, bs)"

fun joinSlash :: "string list \<Rightarrow> string" where
  "joinSlash [] = []"
| "joinSlash [seg] = seg"
| "joinSlash (seg # rest) = seg @ ''/'' @ joinSlash rest"

definition posixRelative :: "string \<Rightarrow> string \<Rightarrow> string option" where
  "posixRelative fromPath toPath =
     (case dropCommon (normalizeSegments [] (splitSlash [] fromPath))
                      (normalizeSegments [] (splitSlash [] toPath)) of
        (up, down) \<Rightarrow> Some (joinSlash (map (\<lambda>_. ''..'') up @ down)))"

subsection \<open>Sample approval contexts\<close>

definition shellContext :: "string \<Rightarrow> bool \<Rightarrow> ApprovalContext" where
  \<comment> \<open>what the registry builds from the shell tool's confirmation; the flag says whether
     the shell tool found one of its blocked commands in the command\<close>
  "shellContext cmd blocked =
     \<lparr>ctx_toolName = ''shell'', ctx_params = JObject [(''command'', JString cmd)], isMutating = True,
      affectedPaths = [], command = Some cmd, isDangerous = blocked\<rparr>"

definition writeContext :: "string \<Rightarrow> ApprovalContext" where
  \<comment> \<open>what the registry builds from the confirmation of a write to a new file\<close>
  "writeContext path =
     \<lparr>ctx_toolName = ''write_file'', ctx_params = JObject [(''path'', JString path)],
      isMutating = True, affectedPaths = [path], command = None, isDangerous = False\<rparr>"

section \<open>Tool contract (tools/base.ts)\<close>

record FileDiff =
  diff_path :: string
  oldContent :: string
  newContent :: string
  isNewFile :: bool
  isDeletion :: bool

record ToolResult =
  success :: bool
  res_output :: string
  error :: "string option"
  metadata :: "(string \<times> json) list"
  truncated :: bool
  diff :: "FileDiff option"
  exitCode :: "int option"

definition errorResult :: "string \<Rightarrow> string \<Rightarrow> (string \<times> json) list \<Rightarrow> ToolResult" where
  "errorResult err out meta =
     \<lparr>success = False, res_output = out, error = Some err, metadata = meta, truncated = False,
      diff = None, exitCode = None\<rparr>"

definition successResult :: "string \<Rightarrow> (string \<times> json) list \<Rightarrow> FileDiff option \<Rightarrow> ToolResult" where
  "successResult out meta d =
     \<lparr>success = True, res_output = out, error = None, metadata = meta, truncated = False,
      diff = d, exitCode = None\<rparr>"

record ToolInvocation =
  inv_params :: json
  inv_cwd :: string

record ToolConfirmation =
  conf_toolName :: string
  conf_params :: json
  conf_description :: string
  conf_diff :: "FileDiff option"
  conf_affectedPaths :: "string list"
  conf_command :: "string option"
  conf_isDangerous :: bool

text \<open>
  A tool is its name and its methods. A method that can throw returns a sum, \<open>Inl\<close> holding
  the message of what it throws (\<open>error.message || String(error)\<close>).
\<close>

record Tool =
  tool_name :: string
  validateParams :: "json \<Rightarrow> string list"
  tool_isMutating :: "json \<Rightarrow> bool"
  getConfirmation :: "ToolInvocation \<Rightarrow> string + ToolConfirmation option"
  execute :: "ToolInvocation \<Rightarrow> string + ToolResult"

section \<open>Tool registry (tools/registry.ts)\<close>

record ToolRegistry =
  tools :: "string \<rightharpoonup> Tool"
  mcpTools :: "string \<rightharpoonup> Tool"

record ApprovalManager =
  approvalPolicy :: ApprovalPolicy
  cwd :: string
  confirmationCallback :: "(ToolConfirmation \<Rightarrow> string + bool) option"

definition registry_get :: "ToolRegistry \<Rightarrow> string \<Rightarrow> Tool option" where
  "registry_get reg name = (case tools reg name of Some t \<Rightarrow> Some t | None \<Rightarrow> mcpTools reg name)"

definition requestConfirmation :: "ApprovalManager \<Rightarrow> ToolConfirmation \<Rightarrow> string + bool" where
  "requestConfirmation mgr confirmation =
     (case confirmationCallback mgr of
        Some callback \<Rightarrow> callback confirmation
      | None \<Rightarrow> Inr True)"

datatype PipelineEvent =
    BeforeTool string json
    \<comment> \<open>\<open>hookSystem.triggerBeforeTool(name, params)\<close>\<close>
  | Execute ToolInvocation
    \<comment> \<open>\<open>tool.execute(invocation)\<close> is called\<close>
  | AfterTool string json ToolResult
    \<comment> \<open>\<open>hookSystem.triggerAfterTool(name, params, result)\<close>\<close>

fun join_with :: "string \<Rightarrow> string list \<Rightarrow> string" where
  \<comment> \<open>\<open>xs.join(sep)\<close>\<close>
  "join_with sep [] = []"
| "join_with sep [x] = x"
| "join_with sep (x # xs) = x @ sep @ join_with sep xs"

definition approvalGate ::
  "(string \<Rightarrow> string \<Rightarrow> string option) \<Rightarrow> Tool \<Rightarrow> string \<Rightarrow> json \<Rightarrow> ToolInvocation
     \<Rightarrow> ApprovalManager option \<Rightarrow> string + ToolResult option" where
  \<comment> \<open>the block \<open>if (approvalManager) { ... }\<close>: \<open>Inl\<close> when it throws, \<open>Inr (Some r)\<close> when it
     ends the invocation with the result \<open>r\<close>, \<open>Inr None\<close> when the invocation goes on\<close>
  "approvalGate relative tool name params invocation approvalManager =
     (case approvalManager of
        None \<Rightarrow> Inr None
      | Some mgr \<Rightarrow>
          (case getConfirmation tool invocation of
             Inl e \<Rightarrow> Inl e
           | Inr None \<Rightarrow> Inr None
           | Inr (Some confirmation) \<Rightarrow>
               (let context = \<lparr>ctx_toolName = name, ctx_params = params,
                               isMutating = tool_isMutating tool params,
                               affectedPaths = conf_affectedPaths confirmation,
                               command = conf_command confirmation,
                               isDangerous = conf_isDangerous confirmation\<rparr>;
                    decision = checkApproval relative (approvalPolicy mgr) (cwd mgr) context
                in if decision = REJECTED
                   then Inr (Some (errorResult ''Operation rejected by safety policy'' [] []))
                   else if decision = NEEDS_CONFIRMATION then
                     (case requestConfirmation mgr confirmation of
                        Inl e \<Rightarrow> Inl e
                      | Inr approved \<Rightarrow>
                          if \<not> approved
                          then Inr (Some (errorResult ''User rejected the operation'' [] []))
                          else Inr None)
                   else Inr None)))"

definition invoke ::
  "(string \<Rightarrow> string \<Rightarrow> string option) \<Rightarrow> ToolRegistry \<Rightarrow> string \<Rightarrow> json \<Rightarrow> string
     \<Rightarrow> ApprovalManager option \<Rightarrow> PipelineEvent list \<times> (string + ToolResult)" where
  \<comment> \<open>the hook triggers and the \<open>execute\<close> call in the order they happen, and what the
     promise settles to: \<open>Inr\<close> the returned result, \<open>Inl\<close> the exception it rejects with\<close>
  "invoke relative reg name params dir approvalManager =
     (case registry_get reg name of
        None \<Rightarrow>
          (let result = errorResult (''Unknown tool: '' @ name) [] [(''tool_name'', JString name)]
           in ([AfterTool name params result], Inr result))
      | Some tool \<Rightarrow>
          (let validationErrors = validateParams tool params in
           if validationErrors \<noteq> [] then
             (let result = errorResult (''Invalid parameters: '' @ join_with ''; '' validationErrors) []
                             [(''tool_name'', JString name),
                              (''validation_errors'', JArray (map JString validationErrors))]
              in ([AfterTool name params result], Inr result))
           else
             (let invocation = \<lparr>inv_params = params, inv_cwd = dir\<rparr> in
              case approvalGate relative tool name params invocation approvalManager of
                Inl e \<Rightarrow> ([BeforeTool name params], Inl e)
              | Inr (Some result) \<Rightarrow>
                  ([BeforeTool name params, AfterTool name params result], Inr result)
              | Inr None \<Rightarrow>
                  (case execute tool invocation of
                     Inr result \<Rightarrow>
                       ([BeforeTool name params, Execute invocation, AfterTool name params result],
                        Inr result)
                   | Inl msg \<Rightarrow>
                       (let result = errorResult (''Internal error: '' @ msg) []
                                       [(''tool_name'', JString name)]
                        in ([BeforeTool name params, Execute invocation, AfterTool name params result],
                            Inr result))))))"

definition afterToolResults :: "PipelineEvent list \<Rightarrow> ToolResult list" where
  "afterToolResults tr =
     concat (map (\<lambda>ev. case ev of AfterTool n p r \<Rightarrow> [r] | _ \<Rightarrow> []) tr)"

definition beforeToolCount :: "PipelineEvent list \<Rightarrow> nat" where
  "beforeToolCount tr =
     length (filter (\<lambda>ev. case ev of BeforeTool n p \<Rightarrow> True | _ \<Rightarrow> False) tr)"

subsection \<open>The edit tool on a directory\<close>

definition stringParam :: "json \<Rightarrow> string \<Rightarrow> string option" where
  "stringParam params key =
     (case params of
        JObject entries \<Rightarrow> (case map_of entries key of Some (JString v) \<Rightarrow> Some v | _ \<Rightarrow> None)
      | _ \<Rightarrow> None)"

fun jsonTypeName :: "json \<Rightarrow> string" where
  \<comment> \<open>the name under which the schema library reports the type of a received value\<close>
  "jsonTypeName JNull = ''null''"
| "jsonTypeName (JBool b) = ''boolean''"
| "jsonTypeName (JNumber n) = ''number''"
| "jsonTypeName (JString s) = ''string''"
| "jsonTypeName (JArray vs) = ''array''"
| "jsonTypeName (JObject entries) = ''object''"

definition fieldErrors :: "(string \<times> json) list \<Rightarrow> string \<Rightarrow> string \<Rightarrow> bool \<Rightarrow> string list" where
  \<comment> \<open>the error of \<open>validateParams\<close> for one field of a schema: the field, the expected type,
     and whether the field is required (a field with a default may be missing)\<close>
  "fieldErrors entries key expected required =
     (case map_of entries key of
        None \<Rightarrow>
          if required then [''Parameter '' @ [CHR 0x27] @ key @ [CHR 0x27] @ '': Required''] else []
      | Some v \<Rightarrow>
          if jsonTypeName v = expected then []
          else [''Parameter '' @ [CHR 0x27] @ key @ [CHR 0x27] @ '': Expected '' @ expected
                @ '', received '' @ jsonTypeName v])"

definition editValidate :: "json \<Rightarrow> string list" where
  \<comment> \<open>\<open>validateParams\<close> with \<open>EditParamsSchema\<close>: \<open>path\<close> and \<open>newString\<close> are strings,
     \<open>oldString\<close> is a string with a default, \<open>replaceAll\<close> a boolean with a default\<close>
  "editValidate params =
     (case params of
        JObject entries \<Rightarrow>
          fieldErrors entries ''path'' ''string'' True
          @ fieldErrors entries ''oldString'' ''string'' False
          @ fieldErrors entries ''newString'' ''string'' True
          @ fieldErrors entries ''replaceAll'' ''boolean'' False
      | _ \<Rightarrow>
          [''Parameter '' @ [CHR 0x27, CHR 0x27] @ '': Expected object, received '' @ jsonTypeName params])"

definition editTool ::
  "(string \<Rightarrow> (string + string) option) \<Rightarrow> (ToolInvocation \<Rightarrow> string + ToolResult) \<Rightarrow> Tool" where
  \<comment> \<open>the edit tool as the pipeline sees it, for resolved paths. The first argument is the
     file system: \<open>None\<close> for a path that does not exist, \<open>Inr\<close> the content of a file, \<open>Inl\<close>
     the error that \<open>readFileSync\<close> throws on the path. The confirmation of an edit of an
     existing path reads it, outside any \<open>try\<close>; the diff, which the pipeline does not read,
     is left out. The second argument is the \<open>execute\<close> method, which rewrites the file\<close>
  "editTool fs run =
     \<lparr>tool_name = ''edit'',
      validateParams = editValidate,
      tool_isMutating = (\<lambda>params. True),
      getConfirmation =
        (\<lambda>invocation.
           case stringParam (inv_params invocation) ''path'' of
             None \<Rightarrow> Inl ''ZodError''
           | Some path \<Rightarrow>
               (case fs path of
                  None \<Rightarrow>
                    Inr (Some \<lparr>conf_toolName = ''edit'', conf_params = inv_params invocation,
                                conf_description = ''Create new file: '' @ path, conf_diff = None,
                                conf_affectedPaths = [path], conf_command = None,
                                conf_isDangerous = False\<rparr>)
                | Some (Inl e) \<Rightarrow> Inl e
                | Some (Inr existing) \<Rightarrow>
                    Inr (Some \<lparr>conf_toolName = ''edit'', conf_params = inv_params invocation,
                                conf_description = ''Edit file: '' @ path, conf_diff = None,
                                conf_affectedPaths = [path], conf_command = None,
                                conf_isDangerous = False\<rparr>))),
      execute = run\<rparr>"

definition projectFiles :: "string \<Rightarrow> (string + string) option" where
  \<comment> \<open>a project with the directory \<open>src\<close> and the file \<open>README.md\<close>\<close>
  "projectFiles path =
     (if path = ''/home/u/project/src'' then Some (Inl ''EISDIR: illegal operation on a directory, read'')
      else if path = ''/home/u/project/README.md'' then Some (Inr ''hello world'')
      else None)"

definition editRegistry :: "(ToolInvocation \<Rightarrow> string + ToolResult) \<Rightarrow> ToolRegistry" where
  "editRegistry run = \<lparr>tools = [''edit'' \<mapsto> editTool projectFiles run], mcpTools = Map.empty\<rparr>"

definition editParams :: "string \<Rightarrow> json" where
  "editParams path =
     JObject [(''path'', JString path), (''oldString'', JString ''hello''),
              (''newString'', JString ''goodbye'')]"

definition sessionApproval :: ApprovalManager where
  "sessionApproval = \<lparr>approvalPolicy = ON_REQUEST, cwd = ''/home/u/project'', confirmationCallback = None\<rparr>"

definition passesLookupAndValidation :: "ToolRegistry \<Rightarrow> string \<Rightarrow> json \<Rightarrow> bool" where
  \<comment> \<open>the tool is registered and its parameters validate\<close>
  "passesLookupAndValidation reg name params =
     (case registry_get reg name of None \<Rightarrow> False | Some tool \<Rightarrow> validateParams tool params = [])"

section \<open>Sub-agent tool (tools/subagents.ts)\<close>

record SubagentDefinition =
  def_name :: string
  def_description :: string
  goalPrompt :: string
  allowedTools :: "string list option"
  maxTurns :: "nat option"
  timeoutSeconds :: "nat option"

text \<open>
  The events of the nested agent that the tool looks at, with the fields it reads. The
  constructors carry the prefix \<open>Agent\<close> to keep them apart from the stream events.
\<close>

datatype AgentEvent =
    AgentStart string
  | AgentEnd "string option"
    \<comment> \<open>\<open>data.response\<close>\<close>
  | AgentError "string option"
    \<comment> \<open>\<open>data.error\<close>\<close>
  | AgentToolCallStart string
    \<comment> \<open>\<open>data.name\<close>\<close>
  | AgentToolCallComplete string
  | AgentTextDelta string
  | AgentTextComplete string
    \<comment> \<open>\<open>data.content\<close>\<close>

text \<open>
  What the nested agent does in one execution: whether creating and initialising it throws,
  the clock reading when the deadline is computed, the events it yields together with the
  clock reading when each one is received, whether the event stream then throws, and
  whether \<open>close\<close> throws. A thrown value is given by its rendering \<open>String(e)\<close>.
\<close>

record AgentRun =
  initThrows :: "string option"
  startedAt :: nat
  events :: "(nat \<times> AgentEvent) list"
  runThrows :: "string option"
  closeThrows :: "string option"

record SubagentState =
  toolCalls_seen :: "string list"
  finalResponse :: "string option"
  sub_error :: "string option"
  terminateResponse :: string

definition initialSubagentState :: SubagentState where
  "initialSubagentState =
     \<lparr>toolCalls_seen = [], finalResponse = None, sub_error = None, terminateResponse = ''goal''\<rparr>"

fun eventLoop :: "nat \<Rightarrow> (nat \<times> AgentEvent) list \<Rightarrow> SubagentState \<Rightarrow> bool \<times> SubagentState" where
  \<comment> \<open>\<open>for await (const event of agent.run(prompt))\<close>; the flag says that the loop was left
     by \<open>break\<close>, so that the stream's own failure, which comes after its last event, is
     not reached\<close>
  "eventLoop deadline [] st = (False, st)"
| "eventLoop deadline ((now, event) # rest) st =
     (if now > deadline
      then (True, st\<lparr>terminateResponse := ''timeout'', finalResponse := Some ''Sub-agent timed out''\<rparr>)
      else
        (case event of
           AgentToolCallStart name \<Rightarrow>
             eventLoop deadline rest (st\<lparr>toolCalls_seen := toolCalls_seen st @ [name]\<rparr>)
         | AgentTextComplete text \<Rightarrow>
             eventLoop deadline rest (st\<lparr>finalResponse := Some text\<rparr>)
         | AgentEnd response \<Rightarrow>
             eventLoop deadline rest
               (if finalResponse st = None
                then st\<lparr>finalResponse := (if truthy_str response then response else None)\<rparr>
                else st)
         | AgentError err \<Rightarrow>
             (True, st\<lparr>terminateResponse := ''error'',
                        sub_error := Some (or_str err ''Unknown''),
                        finalResponse := Some (''Sub-agent error: '' @ or_str err ''Unknown'')\<rparr>)
         | _ \<Rightarrow> eventLoop deadline rest st))"

definition failed :: "string \<Rightarrow> SubagentState \<Rightarrow> SubagentState" where
  \<comment> \<open>the outer \<open>catch (e)\<close>\<close>
  "failed e st =
     st\<lparr>terminateResponse := ''error'', sub_error := Some e,
        finalResponse := Some (''Sub-agent failed: '' @ e)\<rparr>"

definition runSubagent :: "SubagentDefinition \<Rightarrow> AgentRun \<Rightarrow> SubagentState" where
  \<comment> \<open>the outer \<open>try\<close> block with its \<open>finally\<close> and \<open>catch\<close>: an exception of \<open>close\<close> replaces
     one of the event stream\<close>
  "runSubagent definition run =
     (case initThrows run of
        Some e \<Rightarrow> failed e initialSubagentState
      | None \<Rightarrow>
          (let deadline = startedAt run
                 + (case timeoutSeconds definition of
                      None \<Rightarrow> 600
                    | Some t \<Rightarrow> if t = 0 then 600 else t) * 1000
           in case eventLoop deadline (events run) initialSubagentState of
                (left, st) \<Rightarrow>
                  (case closeThrows run of
                     Some e \<Rightarrow> failed e st
                   | None \<Rightarrow>
                       (case (if left then None else runThrows run) of
                          Some e \<Rightarrow> failed e st
                        | None \<Rightarrow> st))))"

definition resultText :: "SubagentDefinition \<Rightarrow> SubagentState \<Rightarrow> string" where
  "resultText definition st =
     ''Sub-agent '' @ [CHR 0x27] @ def_name definition @ [CHR 0x27] @ '' completed.'' @ [CHR 0x0A]
     @ ''Termination: '' @ terminateResponse st @ [CHR 0x0A]
     @ ''Tools called: ''
     @ (if toolCalls_seen st \<noteq> [] then join_with '', '' (toolCalls_seen st) else ''None'')
     @ [CHR 0x0A, CHR 0x0A]
     @ ''Result:'' @ [CHR 0x0A]
     @ or_str (finalResponse st) ''No response'' @ [CHR 0x0A]"

definition parseGoal :: "json \<Rightarrow> string option" where
  \<comment> \<open>\<open>SubagentParamsSchema.parse(invocation.params).goal\<close>, \<open>None\<close> when the schema rejects the
     parameters\<close>
  "parseGoal params =
     (case params of
        JObject entries \<Rightarrow>
          (case map_of entries ''goal'' of Some (JString goal) \<Rightarrow> Some goal | _ \<Rightarrow> None)
      | _ \<Rightarrow> None)"

definition subagent_execute ::
  "SubagentDefinition \<Rightarrow> AgentRun \<Rightarrow> ToolInvocation \<Rightarrow> string + ToolResult" where
  \<comment> \<open>\<open>SubagentTool.execute\<close>; the nested agent is configured from the definition and is
     given by what it does\<close>
  "subagent_execute definition run invocation =
     (case parseGoal (inv_params invocation) of
        None \<Rightarrow> Inl ''ZodError''
      | Some goal \<Rightarrow>
          if goal = [] then Inr (errorResult ''No goal specified for sub-agent'' [] [])
          else
            (let st = runSubagent definition run;
                 result = resultText definition st
             in if truthy_str (sub_error st)
                then Inr (errorResult result [] [])
                else Inr (successResult result [] None)))"

subsection \<open>A sub-agent that runs out of time\<close>

definition slowDefinition :: SubagentDefinition where
  "slowDefinition =
     \<lparr>def_name = ''test_timeout'', def_description = ''A slow task'',
      goalPrompt = ''Do something that takes long'', allowedTools = None, maxTurns = None,
      timeoutSeconds = Some 1\<rparr>"

definition slowRun :: AgentRun where
  \<comment> \<open>the first answer of the model arrives 2.5 seconds after the start\<close>
  "slowRun =
     \<lparr>initThrows = None, startedAt = 0,
      events = [(5, AgentStart ''go''), (2500, AgentTextDelta ''Working''),
                (2600, AgentTextComplete ''Working''), (2600, AgentEnd (Some ''Working''))],
      runThrows = None, closeThrows = None\<rparr>"

definition goalInvocation :: ToolInvocation where
  "goalInvocation = \<lparr>inv_params = JObject [(''goal'', JString ''count the files'')], inv_cwd = ''/home/u''\<rparr>"

subsection \<open>States of the sub-agent loop\<close>

definition running :: "SubagentState \<Rightarrow> bool" where
  \<comment> \<open>the state while the event loop has not been left\<close>
  "running st = (terminateResponse st = ''goal'' \<and> sub_error st = None)"

definition coherent :: "SubagentState \<Rightarrow> bool" where
  \<comment> \<open>how the termination reason and the recorded error go together\<close>
  "coherent st =
     ((terminateResponse st = ''goal'' \<or> terminateResponse st = ''timeout'' \<longrightarrow> sub_error st = None)
      \<and> (terminateResponse st = ''error'' \<longrightarrow> truthy_str (sub_error st))
      \<and> terminateResponse st \<in> {''goal'', ''timeout'', ''error''})"

subsection \<open>The argument fragments of a stream\<close>

definition chunkDeltas :: "Chunk \<Rightarrow> ToolCallChunk list" where
  \<comment> \<open>the tool-call deltas that a chunk carries in its first choice\<close>
  "chunkDeltas chunk =
     (case chunk_choices chunk of
        Some (choice # _) \<Rightarrow>
          (case delta_tool_calls (choice_delta choice) of Some ds \<Rightarrow> ds | None \<Rightarrow> [])
      | _ \<Rightarrow> [])"

definition fragments :: "nat \<Rightarrow> ToolCallChunk list \<Rightarrow> string" where
  \<comment> \<open>the argument text of the deltas with the given index, in order of arrival\<close>
  "fragments idx ds =
     concat (map (\<lambda>d. if tc_index d = idx then or_str (functionArguments d) [] else []) ds)"

definition argumentsOf :: "(nat \<times> AssembledCall) list \<Rightarrow> nat \<Rightarrow> string" where
  "argumentsOf m idx = (case map_of m idx of Some tc \<Rightarrow> ac_arguments tc | None \<Rightarrow> [])"

section \<open>Theorems\<close>

subsection \<open>Token usage\<close>

lemma addUsage_fold_mono:
  "promptTokens t \<le> promptTokens (fold (\<lambda>u acc. TokenUsage_add acc u) us t)
   \<and> completionTokens t \<le> completionTokens (fold (\<lambda>u acc. TokenUsage_add acc u) us t)
   \<and> totalTokens t \<le> totalTokens (fold (\<lambda>u acc. TokenUsage_add acc u) us t)
   \<and> cachedTokens t \<le> cachedTokens (fold (\<lambda>u acc. TokenUsage_add acc u) us t)"
proof (induction us arbitrary: t)
  case Nil
  show ?case by simp
next
  case (Cons u us)
  have step: "promptTokens t \<le> promptTokens (TokenUsage_add t u)"
    "completionTokens t \<le> completionTokens (TokenUsage_add t u)"
    "totalTokens t \<le> totalTokens (TokenUsage_add t u)"
    "cachedTokens t \<le> cachedTokens (TokenUsage_add t u)"
    by (simp_all add: TokenUsage_add_def)
  from Cons.IH [of "TokenUsage_add t u"] step show ?case
    by (auto intro: le_trans)
qed

text \<open>
  Claim C10. \<open>TokenUsage.add\<close> is commutative and has the all-zero usage as identity, in
  every component; the conversation's \<open>totalUsage\<close> never decreases in any component
  under repeated \<open>addUsage\<close> calls.
\<close>

theorem TokenUsage_add_commutative_monoid:
  "TokenUsage_add a b = TokenUsage_add b a
   \<and> TokenUsage_add a TokenUsage_new = a
   \<and> promptTokens (totalUsage cm) \<le> promptTokens (totalUsage (fold addUsage us cm))
   \<and> completionTokens (totalUsage cm) \<le> completionTokens (totalUsage (fold addUsage us cm))
   \<and> totalTokens (totalUsage cm) \<le> totalTokens (totalUsage (fold addUsage us cm))
   \<and> cachedTokens (totalUsage cm) \<le> cachedTokens (totalUsage (fold addUsage us cm))"
proof -
  have comm: "TokenUsage_add a b = TokenUsage_add b a"
    by (simp add: TokenUsage_add_def add.commute)
  have ident: "TokenUsage_add a TokenUsage_new = a"
    by (simp add: TokenUsage_add_def TokenUsage_new_def)
  have tot: "totalUsage (fold addUsage us cm) = fold (\<lambda>u acc. TokenUsage_add acc u) us (totalUsage cm)"
    by (induction us arbitrary: cm) (simp_all add: addUsage_def)
  show ?thesis
    using comm ident addUsage_fold_mono [of "totalUsage cm" us] by (simp add: tot)
qed

subsection \<open>Loop detector\<close>

lemma show_nat_2: "show_nat 2 = ''2''"
  by (simp add: show_nat.simps digit_char_def)

lemma show_nat_3: "show_nat 3 = ''3''"
  by (simp add: show_nat.simps digit_char_def)

lemma slice_last_append: "k \<le> length xs \<Longrightarrow> slice_last k (pre @ xs) = slice_last k xs"
  by (simp add: slice_last_def)

lemma last_six:
  assumes "6 \<le> length (h :: 'a list)"
  obtains pre a b c d e f where "h = pre @ [a, b, c, d, e, f]"
proof -
  define xs where "xs = drop (length h - 6) h"
  have len: "length xs = 6" using assms by (simp add: xs_def)
  then obtain a b c d e f where xs: "xs = [a, b, c, d, e, f]"
    by (auto simp: length_Suc_conv eval_nat_numeral)
  have "h = take (length h - 6) h @ xs" by (simp add: xs_def)
  with xs that show thesis by metis
qed

lemma last_three:
  assumes "3 \<le> length (h :: 'a list)"
  obtains pre a b c where "h = pre @ [a, b, c]"
proof -
  define xs where "xs = drop (length h - 3) h"
  have len: "length xs = 3" using assms by (simp add: xs_def)
  then obtain a b c where xs: "xs = [a, b, c]"
    by (auto simp: length_Suc_conv eval_nat_numeral)
  have "h = take (length h - 3) h @ xs" by (simp add: xs_def)
  with xs that show thesis by metis
qed

lemma same_last_three_iff:
  "same_last_three h \<longleftrightarrow> 3 \<le> length h \<and> length (remdups (slice_last 3 h)) = 1"
proof (cases "3 \<le> length h")
  case True
  then obtain pre a b c where h: "h = pre @ [a, b, c]" by (rule last_three)
  have "slice_last 3 h = [a, b, c]" unfolding h by (simp add: slice_last_append) (simp add: slice_last_def)
  then show ?thesis using True by (auto simp: same_last_three_def)
next
  case False
  then have "length (slice_last 3 h) < 3" by (simp add: slice_last_def)
  then have "same_last_three h = False"
    by (auto simp: same_last_three_def split: list.splits)
  with False show ?thesis by simp
qed

lemma exact_repeat:
  assumes "same_last_three h"
  shows "checkForLoop h = Some ''Same action repeated 3 times''"
  using assms unfolding same_last_three_iff
  by (simp add: checkForLoop_def maxExactRepeats_def show_nat_3)

lemma cycle_two:
  assumes "6 \<le> length h" "identical_halves 2 h" "\<not> same_last_three h"
  shows "checkForLoop h = Some ''Detected repeating cycle of length 2''"
proof -
  have c: "cycleSearch h 2 = Some ''Detected repeating cycle of length 2''"
    using assms(1,2)
    by (subst cycleSearch.simps) (simp add: identical_halves_def maxCycleLength_def show_nat_2 Let_def)
  show ?thesis using assms(1,3) c unfolding same_last_three_iff
    by (auto simp add: checkForLoop_def maxExactRepeats_def maxCycleLength_def)
qed

lemma cycle_three:
  assumes "6 \<le> length h" "identical_halves 3 h" "\<not> same_last_three h"
  shows "checkForLoop h = Some ''Detected repeating cycle of length 3''"
proof -
  from assms(1) obtain pre a b c d e f where h: "h = pre @ [a, b, c, d, e, f]" by (rule last_six)
  have s6: "slice_last 6 h = [a, b, c, d, e, f]"
    unfolding h by (simp add: slice_last_append) (simp add: slice_last_def)
  have s4: "slice_last 4 h = [c, d, e, f]"
    unfolding h by (simp add: slice_last_append) (simp add: slice_last_def)
  have s3: "slice_last 3 h = [d, e, f]"
    unfolding h by (simp add: slice_last_append) (simp add: slice_last_def)
  from assms(2) s6 have eq: "a = d" "b = e" "c = f" by (simp_all add: identical_halves_def)
  from assms(3) s3 have ns: "\<not> (d = e \<and> e = f)" by (simp add: same_last_three_def)
  have no2: "take 2 (slice_last 4 h) \<noteq> drop 2 (slice_last 4 h)"
    using eq ns by (auto simp: s4)
  have c3: "cycleSearch h 3 = Some ''Detected repeating cycle of length 3''"
    using assms(1) eq
    by (subst cycleSearch.simps) (simp add: s6 maxCycleLength_def show_nat_3 Let_def)
  have c2: "cycleSearch h 2 = cycleSearch h 3"
    using assms(1) no2
    by (subst cycleSearch.simps) (simp add: maxCycleLength_def Let_def)
  show ?thesis using assms(1,3) c2 c3 unfolding same_last_three_iff
    by (auto simp add: checkForLoop_def maxExactRepeats_def maxCycleLength_def)
qed

text \<open>
  Claim C4, as amended. A history whose last three signatures are identical yields
  \<open>Same action repeated 3 times\<close>. For a cycle length \<open>L\<close> of 2 or 3, a history of at least
  six signatures whose last \<open>2L\<close> signatures are two identical halves, and whose last three
  are not all identical, yields \<open>Detected repeating cycle of length L\<close>.
\<close>

theorem checkForLoop_detects:
  "(same_last_three h \<longrightarrow> checkForLoop h = Some ''Same action repeated 3 times'')
   \<and> ((L = 2 \<or> L = 3) \<and> 6 \<le> length h \<and> identical_halves L h \<and> \<not> same_last_three h
        \<longrightarrow> checkForLoop h = Some (''Detected repeating cycle of length '' @ show_nat L))"
  using exact_repeat [of h] cycle_two [of h] cycle_three [of h]
  by (auto simp: show_nat_2 show_nat_3)

theorem checkForLoop_detects_witness:
  "same_last_three [''A'', ''A'', ''A'']
   \<and> checkForLoop [''A'', ''A'', ''A''] = Some ''Same action repeated 3 times''
   \<and> identical_halves 2 [''A'', ''B'', ''A'', ''B'', ''A'', ''B'']
   \<and> \<not> same_last_three [''A'', ''B'', ''A'', ''B'', ''A'', ''B'']
   \<and> checkForLoop [''A'', ''B'', ''A'', ''B'', ''A'', ''B''] = Some ''Detected repeating cycle of length 2''
   \<and> identical_halves 3 [''A'', ''B'', ''C'', ''A'', ''B'', ''C'']
   \<and> \<not> same_last_three [''A'', ''B'', ''C'', ''A'', ''B'', ''C'']
   \<and> checkForLoop [''A'', ''B'', ''C'', ''A'', ''B'', ''C''] = Some ''Detected repeating cycle of length 3''"
  using checkForLoop_detects [of "[''A'', ''A'', ''A'']" 2]
    checkForLoop_detects [of "[''A'', ''B'', ''A'', ''B'', ''A'', ''B'']" 2]
    checkForLoop_detects [of "[''A'', ''B'', ''C'', ''A'', ''B'', ''C'']" 3]
  by (simp add: same_last_three_def identical_halves_def slice_last_def show_nat_2 show_nat_3)

text \<open>
  The cycle check is gated on six recorded signatures: the history \<open>A B A B\<close> ends in two
  identical halves of length 2 and is not reported.
\<close>

theorem checkForLoop_short_cycle_counterexample:
  "identical_halves 2 [''A'', ''B'', ''A'', ''B'']
   \<and> \<not> same_last_three [''A'', ''B'', ''A'', ''B'']
   \<and> checkForLoop [''A'', ''B'', ''A'', ''B''] = None"
  by (simp add: identical_halves_def same_last_three_def slice_last_def checkForLoop_def
      maxExactRepeats_def maxCycleLength_def)



subsection \<open>Pruning of tool outputs\<close>

lemma isToolMessage_answers: "isToolMessage msg = answersToolCall msg"
  by (simp add: isToolMessage_def answersToolCall_def truthy_str_def)

lemma messageTokens_stored: "messageTokens msg = storedTokens msg"
  by (simp add: messageTokens_def storedTokens_def countTokens_def estimateTokens_def
      split: option.splits)

lemma clearMessage_fields:
  "clearMessage now msg =
     \<lparr>role = role msg, content = ''[Old tool result content cleared]'',
      toolCallId = toolCallId msg, toolCalls = toolCalls msg, tokenCount = Some 8,
      prunedAt = Some now\<rparr>"
  by (cases msg) (simp add: clearMessage_def clearedContent_def countTokens_def estimateTokens_def)

lemma visited_Suc:
  "i < length msgs \<Longrightarrow>
     visited msgs i \<longleftrightarrow>
       \<not> (answersToolCall (msgs ! i) \<and> prunedAt (msgs ! i) \<noteq> None) \<and> visited msgs (Suc i)"
  by (simp add: visited_def Cons_nth_drop_Suc [symmetric])

lemma tailTokens_Suc:
  "i < length msgs \<Longrightarrow>
     tailTokens msgs i = (if answersToolCall (msgs ! i) then storedTokens (msgs ! i) else 0)
                         + tailTokens msgs (Suc i)"
  by (simp add: tailTokens_def Cons_nth_drop_Suc [symmetric])

lemma visited_mono: "j \<le> i \<Longrightarrow> visited msgs j \<Longrightarrow> visited msgs i"
  using set_drop_subset_set_drop [of j i msgs]
  by (auto simp: visited_def list_ex_iff)

lemma no_candidate_below_pruned:
  assumes "i < length msgs" "answersToolCall (msgs ! i)" "prunedAt (msgs ! i) \<noteq> None"
  shows "filter (isCandidate msgs) [0..<Suc i] = []"
proof -
  have "\<not> visited msgs i" using assms by (simp add: visited_Suc)
  then have "\<forall>j \<le> i. \<not> visited msgs j" using visited_mono by blast
  then show ?thesis by (auto simp: filter_empty_conv isCandidate_def)
qed

lemma pruneScan_candidates:
  assumes "i \<le> length msgs" "visited msgs i"
  shows "snd (pruneScan msgs i (tailTokens msgs i, P, tp)) =
           (P + sum_list (map (\<lambda>j. storedTokens (msgs ! j)) (rev (filter (isCandidate msgs) [0..<i]))),
            tp @ rev (filter (isCandidate msgs) [0..<i]))"
  using assms
proof (induction i arbitrary: P tp)
  case 0
  show ?case by simp
next
  case (Suc i)
  then have lt: "i < length msgs" and le: "i \<le> length msgs" by simp_all
  let ?m = "msgs ! i"
  show ?case
  proof (cases "answersToolCall ?m")
    case False
    then have v: "visited msgs i" using Suc.prems lt by (simp add: visited_Suc)
    have t: "tailTokens msgs i = tailTokens msgs (Suc i)" using False lt by (simp add: tailTokens_Suc)
    have nc: "\<not> isCandidate msgs i" using False by (simp add: isCandidate_def)
    show ?thesis using Suc.IH [OF le v, of P tp] False nc
      by (simp add: t isToolMessage_answers)
  next
    case tool: True
    show ?thesis
    proof (cases "prunedAt ?m \<noteq> None")
      case True
      from no_candidate_below_pruned [OF lt tool True] show ?thesis
        using tool True by (simp add: isToolMessage_answers)
    next
      case False
      then have v: "visited msgs i" using Suc.prems lt by (simp add: visited_Suc)
      have t: "tailTokens msgs i = tailTokens msgs (Suc i) + storedTokens ?m"
        using tool lt by (simp add: tailTokens_Suc)
      show ?thesis
      proof (cases "40000 < tailTokens msgs i")
        case True
        then have c: "isCandidate msgs i" using tool v lt by (simp add: isCandidate_def)
        show ?thesis
          using Suc.IH [OF le v, of "P + storedTokens ?m" "tp @ [i]"] tool False True c
          by (simp add: t Let_def isToolMessage_answers messageTokens_stored
              PRUNE_PROTECT_TOKENS_def)
      next
        case nb: False
        then have c: "\<not> isCandidate msgs i" by (simp add: isCandidate_def)
        show ?thesis using Suc.IH [OF le v, of P tp] tool False nb c
          by (simp add: t Let_def isToolMessage_answers messageTokens_stored
              PRUNE_PROTECT_TOKENS_def)
      qed
    qed
  qed
qed

lemma pruneScan_all:
  "snd (pruneScan msgs (length msgs) (0, 0, [])) = (candidateTokens msgs, candidates msgs)"
proof -
  have v: "visited msgs (length msgs)" by (simp add: visited_def)
  have t: "tailTokens msgs (length msgs) = 0" by (simp add: tailTokens_def)
  from pruneScan_candidates [OF le_refl v, of 0 "[]"] show ?thesis
    by (simp add: t candidateTokens_def candidates_def)
qed

lemma applyPrune_fst: "fst (applyPrune clock is c msgs) = c + length is"
  by (induction "is" arbitrary: c msgs) simp_all

lemma applyPrune_length: "length (snd (applyPrune clock is c msgs)) = length msgs"
  by (induction "is" arbitrary: c msgs) simp_all

lemma applyPrune_other: "j \<notin> set is \<Longrightarrow> snd (applyPrune clock is c msgs) ! j = msgs ! j"
  by (induction "is" arbitrary: c msgs) auto

lemma applyPrune_hit:
  assumes "distinct is" "\<forall>j \<in> set is. j < length msgs" "k < length is"
  shows "snd (applyPrune clock is c msgs) ! (is ! k) = clearMessage (clock (c + k)) (msgs ! (is ! k))"
  using assms
proof (induction "is" arbitrary: c msgs k)
  case Nil
  then show ?case by simp
next
  case (Cons i rest)
  show ?case
  proof (cases k)
    case 0
    have "i \<notin> set rest" using Cons.prems by simp
    from applyPrune_other [OF this] show ?thesis using 0 Cons.prems by simp
  next
    case (Suc k')
    have d: "distinct rest" and k': "k' < length rest" using Cons.prems Suc by simp_all
    have b: "\<forall>j \<in> set rest. j < length (msgs[i := clearMessage (clock c) (msgs ! i)])"
      using Cons.prems by simp
    have ne: "rest ! k' \<noteq> i" using Cons.prems k' by auto
    from Cons.IH [OF d b k', of "c + 1"] show ?thesis using Suc ne by simp
  qed
qed

lemma candidates_nth:
  assumes "isCandidate msgs i"
  shows "length (filter (isCandidate msgs) [Suc i..<length msgs]) < length (candidates msgs)
       \<and> candidates msgs ! length (filter (isCandidate msgs) [Suc i..<length msgs]) = i"
proof -
  have lt: "i < length msgs" using assms by (simp add: isCandidate_def)
  have "[0..<length msgs] = [0..<i] @ i # [Suc i..<length msgs]"
    using lt by (metis le_add2 le_add_same_cancel2 less_imp_add_positive upt_add_eq_append upt_conv_Cons)
  then have "candidates msgs = rev (filter (isCandidate msgs) [Suc i..<length msgs]) @ i # rev (filter (isCandidate msgs) [0..<i])"
    using assms by (simp add: candidates_def)
  then show ?thesis by (simp add: nth_append)
qed

lemma candidates_set: "set (candidates msgs) = {i. isCandidate msgs i}"
  by (auto simp: candidates_def isCandidate_def)

lemma applyPrune_candidates:
  "snd (applyPrune clock (candidates msgs) 0 msgs) = prunedMessages clock msgs"
proof (rule nth_equalityI)
  show "length (snd (applyPrune clock (candidates msgs) 0 msgs)) = length (prunedMessages clock msgs)"
    by (simp add: applyPrune_length prunedMessages_def)
next
  fix i assume "i < length (snd (applyPrune clock (candidates msgs) 0 msgs))"
  then have lt: "i < length msgs" by (simp add: applyPrune_length)
  have d: "distinct (candidates msgs)" by (simp add: candidates_def)
  have b: "\<forall>j \<in> set (candidates msgs). j < length msgs" by (simp add: candidates_set isCandidate_def)
  show "snd (applyPrune clock (candidates msgs) 0 msgs) ! i = prunedMessages clock msgs ! i"
  proof (cases "isCandidate msgs i")
    case True
    let ?k = "length (filter (isCandidate msgs) [Suc i..<length msgs])"
    from candidates_nth [OF True] have k: "?k < length (candidates msgs)" and n: "candidates msgs ! ?k = i" by simp_all
    from applyPrune_hit [OF d b k, of clock 0] show ?thesis
      using True lt by (simp add: n prunedMessages_def prunedMessage_def clearMessage_fields)
  next
    case False
    then have "i \<notin> set (candidates msgs)" by (simp add: candidates_set)
    from applyPrune_other [OF this] show ?thesis
      using False lt by (simp add: prunedMessages_def prunedMessage_def)
  qed
qed

lemma pruneToolOutputs_outcome:
  "pruneToolOutputs clock cm =
     (if 2 \<le> length (filter (\<lambda>msg. role msg = ''user'') (messages cm))
         \<and> 20000 \<le> candidateTokens (messages cm)
      then (length (candidates (messages cm)),
            cm\<lparr>messages := prunedMessages clock (messages cm)\<rparr>)
      else (0, cm))"
proof -
  obtain t p tp where scan: "pruneScan (messages cm) (length (messages cm)) (0, 0, []) = (t, p, tp)"
    by (cases "pruneScan (messages cm) (length (messages cm)) (0, 0, [])") auto
  with pruneScan_all [of "messages cm"]
  have p: "p = candidateTokens (messages cm)" and tp: "tp = candidates (messages cm)"
    by simp_all
  obtain n ms where ap: "applyPrune clock (candidates (messages cm)) 0 (messages cm) = (n, ms)"
    by (cases "applyPrune clock (candidates (messages cm)) 0 (messages cm)") auto
  from ap applyPrune_fst [of clock "candidates (messages cm)" 0 "messages cm"]
  have n: "n = length (candidates (messages cm))" by simp
  from ap applyPrune_candidates [of clock "messages cm"]
  have ms: "ms = prunedMessages clock (messages cm)" by simp
  show ?thesis
    by (simp add: pruneToolOutputs_def userMessageCount_def scan p tp ap n ms
        not_less PRUNE_MINIMUM_TOKENS_def)
qed

lemma in_set_drop_nth:
  "x \<in> set (drop i xs) \<longleftrightarrow> (\<exists>j. i \<le> j \<and> j < length xs \<and> x = xs ! j)"
proof
  assume "x \<in> set (drop i xs)"
  then obtain k where k: "k < length (drop i xs)" and x: "x = drop i xs ! k"
    by (auto simp: in_set_conv_nth)
  from k have "i + k < length xs" by simp
  moreover from k x have "x = xs ! (i + k)" by simp
  ultimately show "\<exists>j. i \<le> j \<and> j < length xs \<and> x = xs ! j"
    by (intro exI [of _ "i + k"]) simp
next
  assume "\<exists>j. i \<le> j \<and> j < length xs \<and> x = xs ! j"
  then obtain j where j: "i \<le> j" "j < length xs" "x = xs ! j" by blast
  then have "j - i < length (drop i xs)" and "drop i xs ! (j - i) = x" by simp_all
  then show "x \<in> set (drop i xs)" by (metis nth_mem)
qed

lemma prunedMessages_nth:
  "i < length msgs \<Longrightarrow> prunedMessages clock msgs ! i = prunedMessage clock msgs i"
  by (simp add: prunedMessages_def)

text \<open>
  Claim C5, as amended. \<open>pruneToolOutputs\<close> visits, newest first, the messages of role \<open>tool\<close>
  that carry a non-empty tool-call id, up to the first previously pruned one; its
  candidates are exactly the visited ones whose tokens accumulated from the end of the
  list exceed 40,000. It prunes only when the candidates total at least 20,000 tokens
  (and the conversation holds at least two user messages, see C9), and then returns
  their number: the content of every candidate becomes
  \<open>[Old tool result content cleared]\<close>, its token count the count of that text, 8, and
  its \<open>prunedAt\<close> is set, while its role, tool-call id and tool calls stay; every other
  message, a message of role \<open>tool\<close> with an empty tool-call id included, is unchanged.
  Otherwise it returns 0 and changes nothing.
\<close>

theorem pruneToolOutputs_spec:
  "pruneToolOutputs clock cm =
     (if 2 \<le> length (filter (\<lambda>msg. role msg = ''user'') (messages cm))
         \<and> 20000 \<le> candidateTokens (messages cm)
      then (length (candidates (messages cm)),
            cm\<lparr>messages := prunedMessages clock (messages cm)\<rparr>)
      else (0, cm))
   \<and> length (prunedMessages clock (messages cm)) = length (messages cm)
   \<and> (\<forall>i < length (messages cm).
         isCandidate (messages cm) i \<longleftrightarrow>
           role (messages cm ! i) = ''tool''
           \<and> toolCallId (messages cm ! i) \<noteq> None \<and> toolCallId (messages cm ! i) \<noteq> Some []
           \<and> (\<forall>j. i \<le> j \<and> j < length (messages cm) \<longrightarrow>
                  \<not> (answersToolCall (messages cm ! j) \<and> prunedAt (messages cm ! j) \<noteq> None))
           \<and> 40000 < sum_list (map storedTokens (filter answersToolCall (drop i (messages cm)))))
   \<and> (\<forall>i < length (messages cm).
         isCandidate (messages cm) i \<longrightarrow>
           content (prunedMessages clock (messages cm) ! i) = ''[Old tool result content cleared]''
           \<and> tokenCount (prunedMessages clock (messages cm) ! i) = Some 8
           \<and> prunedAt (prunedMessages clock (messages cm) ! i) \<noteq> None
           \<and> role (prunedMessages clock (messages cm) ! i) = role (messages cm ! i)
           \<and> toolCallId (prunedMessages clock (messages cm) ! i) = toolCallId (messages cm ! i)
           \<and> toolCalls (prunedMessages clock (messages cm) ! i) = toolCalls (messages cm ! i))
   \<and> (\<forall>i < length (messages cm).
         \<not> isCandidate (messages cm) i \<longrightarrow>
           prunedMessages clock (messages cm) ! i = messages cm ! i)"
proof -
  let ?msgs = "messages cm"
  have len: "length (prunedMessages clock ?msgs) = length ?msgs"
    by (simp add: prunedMessages_def)
  have vis: "\<And>i. visited ?msgs i \<longleftrightarrow>
      (\<forall>j. i \<le> j \<and> j < length ?msgs \<longrightarrow>
                  \<not> (answersToolCall (?msgs ! j) \<and> prunedAt (?msgs ! j) \<noteq> None))"
    unfolding visited_def list_ex_iff Bex_def in_set_drop_nth by blast
  have cand: "\<forall>i < length ?msgs.
         isCandidate ?msgs i \<longleftrightarrow>
           role (?msgs ! i) = ''tool''
           \<and> toolCallId (?msgs ! i) \<noteq> None \<and> toolCallId (?msgs ! i) \<noteq> Some []
           \<and> (\<forall>j. i \<le> j \<and> j < length ?msgs \<longrightarrow>
                  \<not> (answersToolCall (?msgs ! j) \<and> prunedAt (?msgs ! j) \<noteq> None))
           \<and> 40000 < sum_list (map storedTokens (filter answersToolCall (drop i ?msgs)))"
    unfolding vis [symmetric]
    by (auto simp: isCandidate_def tailTokens_def answersToolCall_def split: option.splits)
  have hit: "\<forall>i < length ?msgs.
         isCandidate ?msgs i \<longrightarrow>
           content (prunedMessages clock ?msgs ! i) = ''[Old tool result content cleared]''
           \<and> tokenCount (prunedMessages clock ?msgs ! i) = Some 8
           \<and> prunedAt (prunedMessages clock ?msgs ! i) \<noteq> None
           \<and> role (prunedMessages clock ?msgs ! i) = role (?msgs ! i)
           \<and> toolCallId (prunedMessages clock ?msgs ! i) = toolCallId (?msgs ! i)
           \<and> toolCalls (prunedMessages clock ?msgs ! i) = toolCalls (?msgs ! i)"
    by (simp add: prunedMessages_nth prunedMessage_def)
  have miss: "\<forall>i < length ?msgs.
         \<not> isCandidate ?msgs i \<longrightarrow> prunedMessages clock ?msgs ! i = ?msgs ! i"
    by (simp add: prunedMessages_nth prunedMessage_def)
  show ?thesis
    by (intro conjI pruneToolOutputs_outcome len cand hit miss)
qed

lemmas transcript_eval = transcript7_def userItem_def toolItem_def bareToolItem_def isCandidate_def
  visited_def tailTokens_def answersToolCall_def storedTokens_def

lemma transcript7_length: "length transcript7 = 9"
  by (simp add: transcript7_def)

lemma transcript7_filter: "filter (isCandidate transcript7) [0..<9] = [2, 3, 4]"
  by (simp add: transcript_eval upt_conv_Cons)

lemma transcript7_candidates: "candidates transcript7 = [4, 3, 2]"
  by (simp add: candidates_def transcript7_length transcript7_filter)

lemma transcript7_candidateTokens: "candidateTokens transcript7 = 30000"
  by (simp add: candidateTokens_def transcript7_candidates) (simp add: transcript_eval)

lemma transcript7_users: "length (filter (\<lambda>msg. role msg = ''user'') transcript7) = 2"
  by (simp add: transcript7_def userItem_def toolItem_def)

lemma transcript7_pruned:
  "prunedMessages (\<lambda>k. 1000 + k) transcript7 =
     [userItem ''hi'', userItem ''go on'',
      \<lparr>role = ''tool'', content = ''[Old tool result content cleared]'', toolCallId = Some ''c1'',
       toolCalls = [], tokenCount = Some 8, prunedAt = Some 1002\<rparr>,
      \<lparr>role = ''tool'', content = ''[Old tool result content cleared]'', toolCallId = Some ''c2'',
       toolCalls = [], tokenCount = Some 8, prunedAt = Some 1001\<rparr>,
      \<lparr>role = ''tool'', content = ''[Old tool result content cleared]'', toolCallId = Some ''c3'',
       toolCalls = [], tokenCount = Some 8, prunedAt = Some 1000\<rparr>,
      toolItem ''c4'' 10000, toolItem ''c5'' 10000, toolItem ''c6'' 10000, toolItem ''c7'' 10000]"
  by (simp add: prunedMessages_def prunedMessage_def transcript_eval upt_conv_Cons)

lemmas edge_eval = cmEdge_def userItem_def toolItem_def candidateTokens_def candidates_def
  isCandidate_def visited_def tailTokens_def answersToolCall_def storedTokens_def
  prunedMessages_def prunedMessage_def upt_conv_Cons

theorem pruneToolOutputs_spec_witness:
  "pruneToolOutputs (\<lambda>k. 1000 + k) cm7 =
     (3, \<lparr>messages =
          [userItem ''hi'', userItem ''go on'',
           \<lparr>role = ''tool'', content = ''[Old tool result content cleared]'',
            toolCallId = Some ''c1'', toolCalls = [], tokenCount = Some 8, prunedAt = Some 1002\<rparr>,
           \<lparr>role = ''tool'', content = ''[Old tool result content cleared]'',
            toolCallId = Some ''c2'', toolCalls = [], tokenCount = Some 8, prunedAt = Some 1001\<rparr>,
           \<lparr>role = ''tool'', content = ''[Old tool result content cleared]'',
            toolCallId = Some ''c3'', toolCalls = [], tokenCount = Some 8, prunedAt = Some 1000\<rparr>,
           toolItem ''c4'' 10000, toolItem ''c5'' 10000, toolItem ''c6'' 10000,
           toolItem ''c7'' 10000],
         latestUsage = TokenUsage_new, totalUsage = TokenUsage_new\<rparr>)
   \<and> pruneToolOutputs (\<lambda>k. 1000 + k) (cmEdge 20000 40000) =
       (1, \<lparr>messages =
            [userItem ''hi'', userItem ''go on'',
             \<lparr>role = ''tool'', content = ''[Old tool result content cleared]'',
              toolCallId = Some ''c1'', toolCalls = [], tokenCount = Some 8, prunedAt = Some 1000\<rparr>,
             toolItem ''c2'' 40000],
           latestUsage = TokenUsage_new, totalUsage = TokenUsage_new\<rparr>)
   \<and> pruneToolOutputs (\<lambda>k. 1000 + k) (cmEdge 19999 40000) = (0, cmEdge 19999 40000)
   \<and> pruneToolOutputs (\<lambda>k. 1000 + k) (cmEdge 30000 10001) =
       (1, \<lparr>messages =
            [userItem ''hi'', userItem ''go on'',
             \<lparr>role = ''tool'', content = ''[Old tool result content cleared]'',
              toolCallId = Some ''c1'', toolCalls = [], tokenCount = Some 8, prunedAt = Some 1000\<rparr>,
             toolItem ''c2'' 10001],
           latestUsage = TokenUsage_new, totalUsage = TokenUsage_new\<rparr>)
   \<and> pruneToolOutputs (\<lambda>k. 1000 + k) (cmEdge 30000 10000) = (0, cmEdge 30000 10000)"
proof -
  have a: "pruneToolOutputs (\<lambda>k. 1000 + k) cm7 =
     (3, \<lparr>messages =
          [userItem ''hi'', userItem ''go on'',
           \<lparr>role = ''tool'', content = ''[Old tool result content cleared]'',
            toolCallId = Some ''c1'', toolCalls = [], tokenCount = Some 8, prunedAt = Some 1002\<rparr>,
           \<lparr>role = ''tool'', content = ''[Old tool result content cleared]'',
            toolCallId = Some ''c2'', toolCalls = [], tokenCount = Some 8, prunedAt = Some 1001\<rparr>,
           \<lparr>role = ''tool'', content = ''[Old tool result content cleared]'',
            toolCallId = Some ''c3'', toolCalls = [], tokenCount = Some 8, prunedAt = Some 1000\<rparr>,
           toolItem ''c4'' 10000, toolItem ''c5'' 10000, toolItem ''c6'' 10000,
           toolItem ''c7'' 10000],
         latestUsage = TokenUsage_new, totalUsage = TokenUsage_new\<rparr>)"
    using pruneToolOutputs_spec [of "\<lambda>k. 1000 + k" cm7, THEN conjunct1]
    by (simp add: cm7_def transcript7_candidates transcript7_candidateTokens transcript7_users
        transcript7_pruned)
  have b: "pruneToolOutputs (\<lambda>k. 1000 + k) (cmEdge 20000 40000) =
       (1, \<lparr>messages =
            [userItem ''hi'', userItem ''go on'',
             \<lparr>role = ''tool'', content = ''[Old tool result content cleared]'',
              toolCallId = Some ''c1'', toolCalls = [], tokenCount = Some 8, prunedAt = Some 1000\<rparr>,
             toolItem ''c2'' 40000],
           latestUsage = TokenUsage_new, totalUsage = TokenUsage_new\<rparr>)"
    using pruneToolOutputs_spec [of "\<lambda>k. 1000 + k" "cmEdge 20000 40000", THEN conjunct1]
    by (simp add: edge_eval)
  have c: "pruneToolOutputs (\<lambda>k. 1000 + k) (cmEdge 19999 40000) = (0, cmEdge 19999 40000)"
    using pruneToolOutputs_spec [of "\<lambda>k. 1000 + k" "cmEdge 19999 40000", THEN conjunct1]
    by (simp add: edge_eval)
  have d: "pruneToolOutputs (\<lambda>k. 1000 + k) (cmEdge 30000 10001) =
       (1, \<lparr>messages =
            [userItem ''hi'', userItem ''go on'',
             \<lparr>role = ''tool'', content = ''[Old tool result content cleared]'',
              toolCallId = Some ''c1'', toolCalls = [], tokenCount = Some 8, prunedAt = Some 1000\<rparr>,
             toolItem ''c2'' 10001],
           latestUsage = TokenUsage_new, totalUsage = TokenUsage_new\<rparr>)"
    using pruneToolOutputs_spec [of "\<lambda>k. 1000 + k" "cmEdge 30000 10001", THEN conjunct1]
    by (simp add: edge_eval)
  have e: "pruneToolOutputs (\<lambda>k. 1000 + k) (cmEdge 30000 10000) = (0, cmEdge 30000 10000)"
    using pruneToolOutputs_spec [of "\<lambda>k. 1000 + k" "cmEdge 30000 10000", THEN conjunct1]
    by (simp add: edge_eval)
  show ?thesis by (intro conjI a b c d e)
qed

text \<open>
  Tool messages stored with an empty tool-call id are not pruned: after two user messages
  and seven such messages of 10,000 tokens each, none of them pruned before, the three
  oldest lie beyond the 40,000-token tail and total 30,000 tokens, and \<open>pruneToolOutputs\<close>
  returns 0 and leaves the conversation as it is.
\<close>

theorem pruneToolOutputs_empty_call_id_counterexample:
  "map role (messages cmBare) =
     [''user'', ''user'', ''tool'', ''tool'', ''tool'', ''tool'', ''tool'', ''tool'', ''tool'']
   \<and> map tokenCount (messages cmBare) =
     [Some 1, Some 1, Some 10000, Some 10000, Some 10000, Some 10000, Some 10000, Some 10000,
      Some 10000]
   \<and> map toolCallId (messages cmBare) =
     [None, None, Some [], Some [], Some [], Some [], Some [], Some [], Some []]
   \<and> map prunedAt (messages cmBare) = [None, None, None, None, None, None, None, None, None]
   \<and> pruneToolOutputs (\<lambda>k. 1000 + k) cmBare = (0, cmBare)"
  by (simp add: cmBare_def userItem_def bareToolItem_def countTokens_def estimateTokens_def
      pruneToolOutputs_def userMessageCount_def isToolMessage_def truthy_str_def
      PRUNE_MINIMUM_TOKENS_def)

text \<open>
  Claim C9. With fewer than two user messages, \<open>pruneToolOutputs\<close> returns 0 and leaves
  the context manager, hence every stored message, as it was, whatever the amount of
  tool output.
\<close>

theorem pruneToolOutputs_few_user_messages:
  "userMessageCount (messages cm) < 2 \<Longrightarrow> pruneToolOutputs clock cm = (0, cm)"
  by (simp add: pruneToolOutputs_def)

theorem pruneToolOutputs_few_user_messages_witness:
  "userMessageCount (messages cm1) < 2 \<and> tailTokens (messages cm1) 0 = 70000
   \<and> pruneToolOutputs (\<lambda>k. 1000 + k) cm1 = (0, cm1)"
  using pruneToolOutputs_few_user_messages [of cm1 "\<lambda>k. 1000 + k"]
  by (simp add: cm1_def userMessageCount_def transcript_eval)

subsection \<open>LLM client\<close>

lemma toolCallStep_types:
  assumes "\<forall>e \<in> set (fst acc). chunkEventType (ev_type e)"
  shows "\<forall>e \<in> set (fst (toolCallStep d acc)). chunkEventType (ev_type e)"
  using assms
  by (auto simp: toolCallStep_def Let_def newStreamEvent_def chunkEventType_def split: if_splits prod.splits)

lemma fold_toolCallStep_types:
  assumes "\<forall>e \<in> set (fst acc). chunkEventType (ev_type e)"
  shows "\<forall>e \<in> set (fst (fold toolCallStep ds acc)). chunkEventType (ev_type e)"
  using assms
proof (induction ds arbitrary: acc)
  case Nil
  then show ?case by simp
next
  case (Cons d ds)
  from Cons.IH [OF toolCallStep_types [OF Cons.prems]] show ?case by simp
qed

lemma chunkStep_types:
  assumes "\<forall>e \<in> set (fst acc). chunkEventType (ev_type e)"
  shows "\<forall>e \<in> set (fst (chunkStep c acc)). chunkEventType (ev_type e)"
proof (cases "chunk_choices c")
  case None
  then show ?thesis using assms by (simp add: chunkStep_def Let_def)
next
  case (Some cs)
  show ?thesis
  proof (cases cs)
    case Nil
    then show ?thesis using assms Some by (simp add: chunkStep_def Let_def)
  next
    case (Cons choice rest)
    define st1 where "st1 = (case chunk_usage c of None \<Rightarrow> snd acc
                 | Some u \<Rightarrow> (snd acc)\<lparr>st_usage := Some (toTokenUsage u)\<rparr>)"
    define st2 where "st2 = (if truthy_str (finish_reason choice)
                         then st1\<lparr>st_finishReason := finish_reason choice\<rparr> else st1)"
    define evs2 where "evs2 = (if truthy_str (delta_content (choice_delta choice))
                          then fst acc @ [(newStreamEvent TEXT_DELTA)\<lparr>textDelta := delta_content (choice_delta choice)\<rparr>]
                          else fst acc)"
    have e2: "\<forall>e \<in> set evs2. chunkEventType (ev_type e)"
      using assms by (auto simp: evs2_def newStreamEvent_def chunkEventType_def)
    show ?thesis
    proof (cases "delta_tool_calls (choice_delta choice)")
      case None
      then show ?thesis using e2 Some Cons
        by (simp add: chunkStep_def Let_def evs2_def)
    next
      case ds: (Some ds)
      have "\<forall>e \<in> set (fst (fold toolCallStep ds (evs2, st_toolCalls st2))). chunkEventType (ev_type e)"
        by (rule fold_toolCallStep_types) (simp add: e2)
      then show ?thesis using Some Cons ds
        by (simp add: chunkStep_def Let_def evs2_def st2_def st1_def split: prod.splits)
    qed
  qed
qed

lemma fold_chunkStep_types:
  assumes "\<forall>e \<in> set (fst acc). chunkEventType (ev_type e)"
  shows "\<forall>e \<in> set (fst (fold chunkStep cs acc)). chunkEventType (ev_type e)"
  using assms
proof (induction cs arbitrary: acc)
  case Nil
  then show ?case by simp
next
  case (Cons c cs)
  from Cons.IH [OF chunkStep_types [OF Cons.prems]] show ?case by simp
qed

lemma consumeChunks_types:
  "\<forall>e \<in> set (fst (consumeChunks chunks)). chunkEventType (ev_type e)"
  unfolding consumeChunks_def by (rule fold_chunkStep_types) simp

lemma streamResponse_no_error:
  "\<forall>e \<in> set (streamResponse JSON_parse chunks). ev_type e \<noteq> ERROR"
proof -
  obtain evs st where c: "consumeChunks chunks = (evs, st)"
    by (cases "consumeChunks chunks") auto
  from consumeChunks_types [of chunks] have "\<forall>e \<in> set evs. ev_type e \<noteq> ERROR"
    by (auto simp: c chunkEventType_def)
  then show ?thesis
    by (auto simp: streamResponse_def c toolCallComplete_def messageComplete_def newStreamEvent_def)
qed

lemma nonStreamResponse_no_error:
  "nonStreamResponse JSON_parse r = Inr ev \<Longrightarrow> ev_type ev \<noteq> ERROR"
  by (auto simp: nonStreamResponse_def Let_def newStreamEvent_def split: list.splits)

lemma attemptOutcome_no_error:
  "\<forall>e \<in> set (fst (attemptOutcome JSON_parse stream a)). ev_type e \<noteq> ERROR"
proof (cases a)
  case (StreamEnds chunks)
  then show ?thesis using streamResponse_no_error [of JSON_parse chunks]
    by (simp add: attemptOutcome_def)
next
  case (StreamThrows chunks e)
  from consumeChunks_types [of chunks] have "\<forall>e \<in> set (fst (consumeChunks chunks)). ev_type e \<noteq> ERROR"
    by (auto simp: chunkEventType_def)
  then show ?thesis using StreamThrows by (simp add: attemptOutcome_def)
next
  case (Responds r)
  then show ?thesis using nonStreamResponse_no_error [of JSON_parse r]
    by (auto simp: attemptOutcome_def split: sum.splits)
next
  case (RequestThrows e)
  then show ?thesis by (simp add: attemptOutcome_def)
qed

lemma retryLoop_last:
  "retryLoop f 3 = map Yield (fst (f 3)) @ (case snd (f 3) of None \<Rightarrow> [] | Some e \<Rightarrow> [Yield (errorEvent e)])"
  by (subst retryLoop.simps) (simp add: maxRetries_def split: option.splits)

lemma retryLoop_stop:
  assumes "a \<le> 3" "\<not> failsRetryably (f a)"
  shows "retryLoop f a = map Yield (fst (f a)) @ (case snd (f a) of None \<Rightarrow> [] | Some e \<Rightarrow> [Yield (errorEvent e)])"
  using assms
  by (subst retryLoop.simps) (auto simp: maxRetries_def failsRetryably_def retryable_def split: option.splits)

lemma retryLoop_retry:
  assumes "a < 3" "failsRetryably (f a)"
  shows "retryLoop f a = map Yield (fst (f a)) @ Wait (2 ^ a * 1000) # retryLoop f (a + 1)"
  using assms
  by (subst retryLoop.simps) (auto simp: maxRetries_def failsRetryably_def retryable_def split: option.splits)

lemma upt_0_2: "[0..<2] = [0, 1::nat]"
  by (simp add: numeral_2_eq_2)

lemma upt_0_3: "[0..<3] = [0, 1, 2::nat]"
  by (simp add: numeral_3_eq_3 numeral_2_eq_2)

lemma retryLoop_trace: "retryLoop f 0 = chatTrace f (lastAttempt f)"
proof (cases "failsRetryably (f 0)")
  case False
  then show ?thesis using retryLoop_stop [of 0 f] by (simp add: lastAttempt_def chatTrace_def)
next
  case r0: True
  have s0: "retryLoop f 0 = map Yield (fst (f 0)) @ Wait 1000 # retryLoop f 1"
    using retryLoop_retry [of 0 f] r0 by simp
  show ?thesis
  proof (cases "failsRetryably (f 1)")
    case False
    then show ?thesis using r0 s0 retryLoop_stop [of 1 f]
      by (simp add: lastAttempt_def chatTrace_def)
  next
    case r1: True
    have s1: "retryLoop f 1 = map Yield (fst (f 1)) @ Wait 2000 # retryLoop f 2"
      using retryLoop_retry [of 1 f] r1 by (simp add: numeral_2_eq_2)
    show ?thesis
    proof (cases "failsRetryably (f 2)")
      case False
      then show ?thesis using r0 r1 s0 s1 retryLoop_stop [of 2 f]
        by (simp add: lastAttempt_def chatTrace_def upt_0_2)
    next
      case r2: True
      have s2: "retryLoop f 2 = map Yield (fst (f 2)) @ Wait 4000 # retryLoop f 3"
        using retryLoop_retry [of 2 f] r2 by simp
      show ?thesis using r0 r1 r2 s0 s1 s2 retryLoop_last [of f]
        by (simp add: lastAttempt_def chatTrace_def upt_0_3)
    qed
  qed
qed

lemma lastAttempt_le: "lastAttempt f \<le> 3"
  by (simp add: lastAttempt_def)

lemma waits_append: "waits (xs @ ys) = waits xs @ waits ys"
  by (simp add: waits_def)

lemma waits_Yield: "waits (map Yield es) = []"
  by (induction es) (simp_all add: waits_def)

lemma yielded_append: "yielded (xs @ ys) = yielded xs @ yielded ys"
  by (simp add: yielded_def)

lemma yielded_Yield: "yielded (map Yield es) = es"
  by (induction es) (simp_all add: yielded_def)

lemma waits_Wait: "waits (Wait n # xs) = n # waits xs"
  by (simp add: waits_def)

lemma waits_Nil: "waits [] = []"
  by (simp add: waits_def)

lemma waits_tail: "waits (case r of None \<Rightarrow> [] | Some e \<Rightarrow> [Yield (g e)]) = []"
  by (cases r) (simp_all add: waits_def)

lemma waits_chatTrace: "k \<le> 3 \<Longrightarrow> waits (chatTrace f k) = take k [1000, 2000, 4000]"
proof -
  assume "k \<le> 3"
  then consider "k = 0" | "k = 1" | "k = 2" | "k = 3" by linarith
  then show ?thesis
    by cases (simp_all add: chatTrace_def waits_append waits_Yield waits_Wait waits_Nil waits_tail upt_0_2 upt_0_3)
qed

lemma errorEvents_prefix:
  assumes "\<forall>i. \<forall>e \<in> set (fst (f i)). ev_type e \<noteq> ERROR"
  shows "errorEvents (concat (map (\<lambda>i. map Yield (fst (f i)) @ [Wait (2 ^ i * 1000)]) is) @ map Yield (fst (f k))) = []"
proof -
  have one: "\<And>i. filter (\<lambda>e. ev_type e = ERROR) (fst (f i)) = []"
    using assms by (simp add: filter_empty_conv)
  have "errorEvents (concat (map (\<lambda>i. map Yield (fst (f i)) @ [Wait (2 ^ i * 1000)]) is)) = []"
    by (induction "is") (simp_all add: errorEvents_def yielded_append yielded_Yield one, simp_all add: yielded_def)
  then show ?thesis
    by (simp add: errorEvents_def yielded_append yielded_Yield one)
qed

lemma errorEvents_chatTrace:
  assumes "\<forall>i. \<forall>e \<in> set (fst (f i)). ev_type e \<noteq> ERROR"
  shows "errorEvents (chatTrace f k) = (case snd (f k) of None \<Rightarrow> [] | Some e \<Rightarrow> [errorEvent e])"
proof -
  have "errorEvents (chatTrace f k) =
        errorEvents (concat (map (\<lambda>i. map Yield (fst (f i)) @ [Wait (2 ^ i * 1000)]) [0..<k]) @ map Yield (fst (f k)))
        @ errorEvents (case snd (f k) of None \<Rightarrow> [] | Some e \<Rightarrow> [Yield (errorEvent e)])"
    by (simp add: chatTrace_def errorEvents_def yielded_append)
  also have "\<dots> = errorEvents (case snd (f k) of None \<Rightarrow> [] | Some e \<Rightarrow> [Yield (errorEvent e)])"
    using errorEvents_prefix [OF assms] by simp
  also have "\<dots> = (case snd (f k) of None \<Rightarrow> [] | Some e \<Rightarrow> [errorEvent e])"
    by (simp add: errorEvents_def yielded_def errorEvent_def newStreamEvent_def split: option.splits)
  finally show ?thesis .
qed

text \<open>
  Claim C8. A request that fails with a rate-limit (status 429) or a transient connection
  error is retried, at most three times, after waits of 1000, 2000 and 4000 milliseconds:
  the run consists of the attempts up to the first one that does not fail retryably (the
  fourth at the latest), each earlier attempt followed by its wait. When that last attempt
  fails, by a non-retryable error or because the three retries are used up, exactly one
  \<open>ERROR\<close> event is yielded and it is the last thing the run does; when it succeeds no
  \<open>ERROR\<close> event is yielded.
\<close>

theorem chatCompletion_retry_policy:
  fixes JSON_parse stream provider
  defines "outcome \<equiv> (\<lambda>attempt. attemptOutcome JSON_parse stream (provider attempt))"
  defines "k \<equiv> lastAttempt outcome"
  defines "tr \<equiv> chatCompletion JSON_parse stream provider"
  shows "k \<le> 3
     \<and> tr = concat (map (\<lambda>i. map Yield (fst (outcome i)) @ [Wait (2 ^ i * 1000)]) [0..<k])
            @ map Yield (fst (outcome k))
            @ (case snd (outcome k) of None \<Rightarrow> [] | Some e \<Rightarrow> [Yield (errorEvent e)])
     \<and> waits tr = take k [1000, 2000, 4000]
     \<and> (case snd (outcome k) of
          None \<Rightarrow> errorEvents tr = []
        | Some e \<Rightarrow> errorEvents tr = [errorEvent e] \<and> last tr = Yield (errorEvent e))"
proof -
  have tr: "tr = chatTrace outcome k"
    unfolding tr_def k_def outcome_def chatCompletion_def by (rule retryLoop_trace)
  have k3: "k \<le> 3" unfolding k_def by (rule lastAttempt_le)
  have ne: "\<forall>i. \<forall>e \<in> set (fst (outcome i)). ev_type e \<noteq> ERROR"
    unfolding outcome_def using attemptOutcome_no_error by blast
  have w: "waits tr = take k [1000, 2000, 4000]"
    unfolding tr using k3 by (rule waits_chatTrace)
  have ee: "errorEvents tr = (case snd (outcome k) of None \<Rightarrow> [] | Some e \<Rightarrow> [errorEvent e])"
    unfolding tr using ne by (rule errorEvents_chatTrace)
  have l: "\<And>e. snd (outcome k) = Some e \<Longrightarrow> last tr = Yield (errorEvent e)"
    unfolding tr by (simp add: chatTrace_def)
  show ?thesis using k3 w ee l tr
    by (simp add: chatTrace_def split: option.splits)
qed

lemma flaky_outcomes:
  "attemptOutcome JSON_parse True (flakyProvider 0) = ([], Some rateLimitError)"
  "attemptOutcome JSON_parse True (flakyProvider 1)
     = ([(newStreamEvent TEXT_DELTA)\<lparr>textDelta := Some ''he''\<rparr>], Some connectionError)"
  "attemptOutcome JSON_parse True (flakyProvider 2) = ([], Some rateLimitError)"
  "attemptOutcome JSON_parse True (flakyProvider 3) = ([], Some rateLimitError)"
  by (simp_all add: attemptOutcome_def flakyProvider_def consumeChunks_def chunkStep_def textChunk_def
      initialStreamState_def truthy_str_def Let_def)

lemma flaky_last: "lastAttempt (\<lambda>attempt. attemptOutcome JSON_parse True (flakyProvider attempt)) = 3"
  using flaky_outcomes [of JSON_parse]
  by (simp add: lastAttempt_def failsRetryably_def retryable_def rateLimitError_def connectionError_def)

theorem chatCompletion_retry_policy_witness:
  "chatCompletion parseSample True flakyProvider =
     [Wait 1000, Yield ((newStreamEvent TEXT_DELTA)\<lparr>textDelta := Some ''he''\<rparr>), Wait 2000, Wait 4000,
      Yield (errorEvent rateLimitError)]
   \<and> waits (chatCompletion parseSample True flakyProvider) = [1000, 2000, 4000]
   \<and> errorEvents (chatCompletion parseSample True flakyProvider) = [errorEvent rateLimitError]"
proof -
  note policy = chatCompletion_retry_policy [of parseSample True flakyProvider]
  have tr: "chatCompletion parseSample True flakyProvider =
     [Wait 1000, Yield ((newStreamEvent TEXT_DELTA)\<lparr>textDelta := Some ''he''\<rparr>), Wait 2000, Wait 4000,
      Yield (errorEvent rateLimitError)]"
    using policy [THEN conjunct2, THEN conjunct1] flaky_outcomes [of parseSample]
    by (simp add: flaky_last upt_0_3)
  have w: "waits (chatCompletion parseSample True flakyProvider) = [1000, 2000, 4000]"
    using policy [THEN conjunct2, THEN conjunct2, THEN conjunct1] by (simp add: flaky_last)
  have e: "errorEvents (chatCompletion parseSample True flakyProvider) = [errorEvent rateLimitError]"
    using policy [THEN conjunct2, THEN conjunct2, THEN conjunct2] flaky_outcomes [of parseSample]
    by (simp add: flaky_last)
  show ?thesis using tr w e by blast
qed

lemma map_of_map_update:
  "map_of (map_update idx f m) k = (if k = idx then map_option f (map_of m idx) else map_of m k)"
  by (induction m) auto

lemma keys_map_update: "map fst (map_update idx f m) = map fst m"
  by (induction m) auto

lemma argumentsOf_new:
  assumes "\<not> map_has idx m"
  shows "argumentsOf (m @ [(idx, \<lparr>ac_id = i, ac_name = n, ac_arguments = []\<rparr>)]) k = argumentsOf m k"
proof -
  have none: "map_of m idx = None"
    using assms by (simp add: map_has_def map_of_eq_None_iff)
  show ?thesis
    using none by (cases "map_of m k") (auto simp: argumentsOf_def map_of_append map_add_def)
qed

lemma argumentsOf_rename:
  "argumentsOf (map_update idx (\<lambda>v. v\<lparr>ac_name := n\<rparr>) m) k = argumentsOf m k"
  by (auto simp: argumentsOf_def map_of_map_update split: option.splits)

lemma argumentsOf_extend:
  "map_has idx m \<Longrightarrow>
     argumentsOf (map_update idx (\<lambda>v. v\<lparr>ac_arguments := ac_arguments v @ a\<rparr>) m) k
       = argumentsOf m k @ (if k = idx then a else [])"
  by (auto simp: argumentsOf_def map_has_def map_of_map_update map_of_eq_None_iff split: option.splits)

lemma map_has_new: "map_has idx (m @ [(idx, v)])"
  by (simp add: map_has_def)

lemma map_has_update: "map_has k (map_update idx f m) = map_has k m"
  by (simp add: map_has_def keys_map_update)

lemma toolCallStep_arguments:
  "argumentsOf (snd (toolCallStep d (evs, m))) k
     = argumentsOf m k @ (if tc_index d = k then or_str (functionArguments d) [] else [])"
proof -
  define m1 where "m1 = (if \<not> map_has (tc_index d) m then
               (let m0 = m @ [(tc_index d, \<lparr>ac_id = or_str (tc_id d) [], ac_name = [], ac_arguments = []\<rparr>)]
                in if truthy_str (functionName d) then
                     map_update (tc_index d) (\<lambda>v. v\<lparr>ac_name := or_str (functionName d) []\<rparr>) m0
                   else m0)
             else m)"
  have has: "map_has (tc_index d) m1"
    by (auto simp: m1_def Let_def map_has_update map_has_new)
  have same: "argumentsOf m1 k = argumentsOf m k"
    by (auto simp: m1_def Let_def argumentsOf_rename argumentsOf_new)
  have step: "snd (toolCallStep d (evs, m)) =
          (if truthy_str (functionArguments d)
           then map_update (tc_index d) (\<lambda>v. v\<lparr>ac_arguments := ac_arguments v @ or_str (functionArguments d) []\<rparr>) m1
           else m1)"
    by (simp add: toolCallStep_def Let_def m1_def split: prod.splits)
  have falsy: "\<not> truthy_str (functionArguments d) \<Longrightarrow> or_str (functionArguments d) [] = []"
    by (simp add: truthy_str_def or_str_def split: option.splits)
  show ?thesis
    unfolding step using has same falsy
    by (auto simp: argumentsOf_extend)
qed

lemma fold_toolCallStep_arguments:
  "argumentsOf (snd (fold toolCallStep ds (evs, m))) k = argumentsOf m k @ fragments k ds"
proof (induction ds arbitrary: evs m)
  case Nil
  then show ?case by (simp add: fragments_def)
next
  case (Cons d ds)
  obtain evs' m' where s: "toolCallStep d (evs, m) = (evs', m')"
    by (cases "toolCallStep d (evs, m)") auto
  from toolCallStep_arguments [of d evs m k] have "argumentsOf m' k
     = argumentsOf m k @ (if tc_index d = k then or_str (functionArguments d) [] else [])"
    by (simp add: s)
  with Cons.IH [of evs' m'] show ?case
    by (simp add: s fragments_def)
qed

lemma chunkStep_arguments:
  "argumentsOf (st_toolCalls (snd (chunkStep c (evs, st)))) k
     = argumentsOf (st_toolCalls st) k @ fragments k (chunkDeltas c)"
proof -
  have u: "\<And>s. st_toolCalls (case chunk_usage c of None \<Rightarrow> s
                 | Some u \<Rightarrow> s\<lparr>st_usage := Some (toTokenUsage u)\<rparr>) = st_toolCalls s"
    by (simp split: option.splits)
  show ?thesis
  proof (cases "chunk_choices c")
    case None
    then show ?thesis by (simp add: chunkStep_def chunkDeltas_def fragments_def u)
  next
    case (Some cs)
    show ?thesis
    proof (cases cs)
      case Nil
      then show ?thesis using Some by (simp add: chunkStep_def chunkDeltas_def fragments_def u)
    next
      case (Cons choice rest)
      show ?thesis
      proof (cases "delta_tool_calls (choice_delta choice)")
        case None
        then show ?thesis using Some Cons
          by (simp add: chunkStep_def chunkDeltas_def fragments_def u Let_def)
      next
        case ds: (Some ds)
        define st1 where "st1 = (case chunk_usage c of None \<Rightarrow> st
                 | Some u \<Rightarrow> st\<lparr>st_usage := Some (toTokenUsage u)\<rparr>)"
        define st2 where "st2 = (if truthy_str (finish_reason choice)
                         then st1\<lparr>st_finishReason := finish_reason choice\<rparr> else st1)"
        define evs2 where "evs2 = (if truthy_str (delta_content (choice_delta choice))
                          then evs @ [(newStreamEvent TEXT_DELTA)\<lparr>textDelta := delta_content (choice_delta choice)\<rparr>]
                          else evs)"
        have tc: "st_toolCalls st2 = st_toolCalls st"
          by (simp add: st2_def st1_def split: option.splits)
        have "snd (chunkStep c (evs, st))
                = st2\<lparr>st_toolCalls := snd (fold toolCallStep ds (evs2, st_toolCalls st2))\<rparr>"
          using Some Cons ds
          by (simp add: chunkStep_def Let_def st1_def st2_def evs2_def case_prod_beta
              cong: option.case_cong)
        then show ?thesis using Some Cons ds
          by (simp add: chunkDeltas_def fold_toolCallStep_arguments tc)
      qed
    qed
  qed
qed

lemma fold_chunkStep_arguments:
  "argumentsOf (st_toolCalls (snd (fold chunkStep cs (evs, st)))) k
     = argumentsOf (st_toolCalls st) k @ fragments k (concat (map chunkDeltas cs))"
proof (induction cs arbitrary: evs st)
  case Nil
  then show ?case by (simp add: fragments_def)
next
  case (Cons c cs)
  obtain evs' st' where s: "chunkStep c (evs, st) = (evs', st')"
    by (cases "chunkStep c (evs, st)") auto
  from chunkStep_arguments [of c evs st k]
  have "argumentsOf (st_toolCalls st') k = argumentsOf (st_toolCalls st) k @ fragments k (chunkDeltas c)"
    by (simp add: s)
  with Cons.IH [of evs' st'] show ?case
    by (simp add: s fragments_def)
qed

lemma accumulated_arguments:
  "argumentsOf (st_toolCalls (snd (consumeChunks chunks))) idx
     = fragments idx (concat (map chunkDeltas chunks))"
  using fold_chunkStep_arguments [of chunks "[]" initialStreamState idx]
  by (simp add: consumeChunks_def initialStreamState_def argumentsOf_def)

lemma toolCallStep_distinct:
  assumes "distinct (map fst m)"
  shows "distinct (map fst (snd (toolCallStep d (evs, m))))"
  using assms
  by (auto simp: toolCallStep_def Let_def keys_map_update map_has_def split: prod.splits if_splits)

lemma fold_toolCallStep_distinct:
  assumes "distinct (map fst m)"
  shows "distinct (map fst (snd (fold toolCallStep ds (evs, m))))"
  using assms
proof (induction ds arbitrary: evs m)
  case Nil
  then show ?case by simp
next
  case (Cons d ds)
  obtain evs' m' where s: "toolCallStep d (evs, m) = (evs', m')"
    by (cases "toolCallStep d (evs, m)") auto
  from toolCallStep_distinct [OF Cons.prems, of d evs] have "distinct (map fst m')"
    by (simp add: s)
  from Cons.IH [OF this, of evs'] show ?case by (simp add: s)
qed

lemma chunkStep_distinct:
  assumes "distinct (map fst (st_toolCalls st))"
  shows "distinct (map fst (st_toolCalls (snd (chunkStep c (evs, st)))))"
  using assms fold_toolCallStep_distinct
  by (auto simp: chunkStep_def Let_def case_prod_beta split: option.splits list.splits)

lemma fold_chunkStep_distinct:
  assumes "distinct (map fst (st_toolCalls st))"
  shows "distinct (map fst (st_toolCalls (snd (fold chunkStep cs (evs, st)))))"
  using assms
proof (induction cs arbitrary: evs st)
  case Nil
  then show ?case by simp
next
  case (Cons c cs)
  obtain evs' st' where s: "chunkStep c (evs, st) = (evs', st')"
    by (cases "chunkStep c (evs, st)") auto
  from chunkStep_distinct [OF Cons.prems, of c evs] have "distinct (map fst (st_toolCalls st'))"
    by (simp add: s)
  from Cons.IH [OF this, of evs'] show ?case by (simp add: s)
qed

lemma assembled_arguments:
  assumes "(idx, tc) \<in> set (st_toolCalls (snd (consumeChunks chunks)))"
  shows "ac_arguments tc = fragments idx (concat (map chunkDeltas chunks))"
proof -
  have "distinct (map fst (st_toolCalls (snd (consumeChunks chunks))))"
    unfolding consumeChunks_def
    by (rule fold_chunkStep_distinct) (simp add: initialStreamState_def)
  with assms have "map_of (st_toolCalls (snd (consumeChunks chunks))) idx = Some tc"
    by simp
  then have "argumentsOf (st_toolCalls (snd (consumeChunks chunks))) idx = ac_arguments tc"
    by (simp add: argumentsOf_def)
  with accumulated_arguments [of chunks idx] show ?thesis by simp
qed

lemma completedArgs_append: "completedArgs (xs @ ys) = completedArgs xs @ completedArgs ys"
  by (simp add: completedArgs_def)

lemma completedArgs_chunk_events:
  assumes "\<forall>e \<in> set evs. chunkEventType (ev_type e)"
  shows "completedArgs evs = []"
proof -
  have "filter (\<lambda>e. ev_type e = TOOL_CALL_COMPLETE) evs = []"
    using assms by (auto simp: filter_empty_conv chunkEventType_def)
  then show ?thesis by (simp add: completedArgs_def)
qed

lemma completedArgs_complete:
  "completedArgs (map (toolCallComplete JSON_parse) tcs)
     = map (\<lambda>tc. parseToolCallArguments JSON_parse (ac_arguments tc)) tcs"
  by (induction tcs) (simp_all add: completedArgs_def toolCallComplete_def newStreamEvent_def)

lemma completedArgs_messageComplete: "completedArgs [messageComplete st] = []"
  by (simp add: completedArgs_def messageComplete_def newStreamEvent_def)

text \<open>
  Claim C7, as amended. The accumulated argument string of an assembled tool call is the
  concatenation of the argument fragments that arrived for its index
  (\<open>assembled_arguments\<close>). At end of stream the arguments attached to the
  \<open>TOOL_CALL_COMPLETE\<close> events are, for the assembled tool calls in order: the empty object
  when the accumulated argument string is empty; the parsed value, unchanged, when the
  non-empty string parses as JSON; the wrapper \<open>{raw_arguments: <the string>}\<close> when the
  non-empty string fails to parse.
\<close>

theorem toolCallComplete_arguments:
  "completedArgs (streamResponse JSON_parse chunks) =
     map (\<lambda>tc. if ac_arguments tc = [] then JObject []
                else (case JSON_parse (ac_arguments tc) of
                        Some v \<Rightarrow> v
                      | None \<Rightarrow> JObject [(''raw_arguments'', JString (ac_arguments tc))]))
         (assembledCalls chunks)"
proof -
  obtain evs st where c: "consumeChunks chunks = (evs, st)"
    by (cases "consumeChunks chunks") auto
  from consumeChunks_types [of chunks] have "\<forall>e \<in> set evs. chunkEventType (ev_type e)"
    by (simp add: c)
  then have e: "completedArgs evs = []" by (rule completedArgs_chunk_events)
  have "completedArgs (streamResponse JSON_parse chunks)
          = map (\<lambda>tc. parseToolCallArguments JSON_parse (ac_arguments tc)) (map snd (st_toolCalls st))"
    by (simp add: streamResponse_def c completedArgs_append e completedArgs_complete
        completedArgs_messageComplete del: map_map)
  then show ?thesis
    by (simp add: assembledCalls_def c parseToolCallArguments_def)
qed

lemmas stream_eval = consumeChunks_def chunkStep_def toolCallStep_def toolChunk_def callDelta_def
  initialStreamState_def truthy_str_def or_str_def functionName_def functionArguments_def
  map_has_def map_get_id_def newStreamEvent_def Let_def

lemma sample_calls:
  \<open>assembledCalls sampleStream =
     [\<lparr>ac_id = ''call_1'', ac_name = ''list_dir'', ac_arguments = ''{"path":"."}''\<rparr>,
      \<lparr>ac_id = ''call_2'', ac_name = ''glob'', ac_arguments = ''{"pattern":''\<rparr>,
      \<lparr>ac_id = ''call_3'', ac_name = ''todo'', ac_arguments = []\<rparr>]\<close>
  by (simp add: assembledCalls_def sampleStream_def stream_eval)

theorem toolCallComplete_arguments_witness:
  \<open>completedArgs (streamResponse parseSample sampleStream) =
     [JObject [(''path'', JString ''.'')],
      JObject [(''raw_arguments'', JString ''{"pattern":'')],
      JObject []]\<close>
  using toolCallComplete_arguments [of parseSample sampleStream]
  by (simp add: sample_calls parseSample_def)

text \<open>
  A tool call that arrives without any argument text is completed with the empty object
  \<open>{}\<close>, not with the wrapper around the empty string, although the empty string does not
  parse as JSON.
\<close>

theorem toolCallComplete_empty_arguments_counterexample:
  "completedArgs (streamResponse (\<lambda>s. None) [toolChunk [callDelta 0 (Some ''call_3'') (Some ''todo'') None]])
     = [JObject []]
   \<and> JObject [] \<noteq> JObject [(''raw_arguments'', JString [])]"
  by (simp add: completedArgs_def streamResponse_def toolCallComplete_def messageComplete_def
      parseToolCallArguments_def stream_eval)

subsection \<open>Approval manager\<close>

lemmas dangerous_eval = isDangerousCommand_def DANGEROUS_PATTERNS_def anywhere_def rx_test_def
  rootOrHome_def

lemmas safe_eval = isSafeCommand_def SAFE_PATTERNS_def atStart_def rx_test_def spaceOrEnd_def

lemma rm_rf_root_dangerous: "isDangerousCommand ''rm -rf /''"
  by (simp add: dangerous_eval)

lemma ls_la_not_dangerous: "\<not> isDangerousCommand ''ls -la''"
  by (simp add: dangerous_eval)

lemma ls_la_safe: "isSafeCommand ''ls -la''"
  by (simp add: safe_eval)

lemma tmp_foo_escapes: "posixRelative ''/home/u'' ''/tmp/foo'' = Some ''../../tmp/foo''"
  by (simp add: posixRelative_def)

text \<open>
  Claim C1, as amended. For a mutating approval context whose command matches a dangerous
  pattern, \<open>checkApproval\<close> returns \<open>REJECTED\<close> under every policy other than \<open>yolo\<close>; under
  \<open>yolo\<close> the command classifier approves before the dangerous patterns are consulted and
  \<open>checkApproval\<close> returns \<open>APPROVED\<close>.
\<close>

theorem dangerous_command_decision:
  "isMutating ctx \<and> command ctx = Some cmd \<and> cmd \<noteq> [] \<and> isDangerousCommand cmd
   \<longrightarrow> checkApproval relative policy dir ctx = (if policy = YOLO then APPROVED else REJECTED)"
  by (simp add: checkApproval_def assessCommandSafety_def truthy_str_def or_str_def)

theorem dangerous_command_decision_witness:
  "isMutating (shellContext ''rm -rf /'' True) \<and> command (shellContext ''rm -rf /'' True) = Some ''rm -rf /''
   \<and> isDangerousCommand ''rm -rf /''
   \<and> checkApproval posixRelative ON_REQUEST ''/home/u'' (shellContext ''rm -rf /'' True) = REJECTED"
  using dangerous_command_decision [of "shellContext ''rm -rf /'' True" "''rm -rf /''" posixRelative ON_REQUEST "''/home/u''"]
    rm_rf_root_dangerous
  by (simp add: shellContext_def)

text \<open>
  Under policy \<open>yolo\<close> the command \<open>rm -rf /\<close> is approved by \<open>checkApproval\<close>.
\<close>

theorem yolo_dangerous_command_counterexample:
  "isMutating (shellContext ''rm -rf /'' True) \<and> command (shellContext ''rm -rf /'' True) = Some ''rm -rf /''
   \<and> isDangerousCommand ''rm -rf /''
   \<and> checkApproval posixRelative YOLO ''/home/u'' (shellContext ''rm -rf /'' True) = APPROVED"
  using rm_rf_root_dangerous
  by (simp add: shellContext_def checkApproval_def assessCommandSafety_def truthy_str_def or_str_def)

lemma checkPaths_escape:
  assumes "p \<in> set paths" "relative dir p = Some r" "startsWith ''..'' r"
  shows "checkPaths relative dir paths"
  using assms by (induction paths) (auto split: option.splits)

text \<open>
  Claim C3, as amended. For a mutating approval context that has no command, or whose
  command the classifier leaves at \<open>NEEDS_CONFIRMATION\<close>, an affected path whose relative
  path from cwd begins with \<open>..\<close> makes \<open>checkApproval\<close> return \<open>NEEDS_CONFIRMATION\<close>. A
  command that the classifier approves is \<open>APPROVED\<close> whatever the affected paths are.
\<close>

theorem escaping_path_decision:
  "(isMutating ctx
      \<and> (\<not> truthy_str (command ctx)
          \<or> assessCommandSafety policy (or_str (command ctx) []) = NEEDS_CONFIRMATION)
      \<and> p \<in> set (affectedPaths ctx) \<and> relative dir p = Some r \<and> startsWith ''..'' r
    \<longrightarrow> checkApproval relative policy dir ctx = NEEDS_CONFIRMATION)
   \<and> (isMutating ctx \<and> truthy_str (command ctx)
      \<and> assessCommandSafety policy (or_str (command ctx) []) = APPROVED
    \<longrightarrow> checkApproval relative policy dir ctx = APPROVED)"
  using checkPaths_escape [of p "affectedPaths ctx" relative dir r]
  by (auto simp: checkApproval_def)

theorem escaping_path_decision_witness:
  "isMutating (writeContext ''/tmp/foo'') \<and> \<not> truthy_str (command (writeContext ''/tmp/foo''))
   \<and> ''/tmp/foo'' \<in> set (affectedPaths (writeContext ''/tmp/foo''))
   \<and> posixRelative ''/home/u'' ''/tmp/foo'' = Some ''../../tmp/foo''
   \<and> startsWith ''..'' ''../../tmp/foo''
   \<and> checkApproval posixRelative AUTO_EDIT ''/home/u'' (writeContext ''/tmp/foo'') = NEEDS_CONFIRMATION
   \<and> assessCommandSafety ON_FAILURE ''ls -la'' = APPROVED
   \<and> checkApproval posixRelative ON_FAILURE ''/home/u'' (shellContext ''ls -la'' False) = APPROVED"
  using escaping_path_decision [of "writeContext ''/tmp/foo''" AUTO_EDIT "''/tmp/foo''" posixRelative
      "''/home/u''" "''../../tmp/foo''"]
    escaping_path_decision [of "shellContext ''ls -la'' False" ON_FAILURE "''/tmp/foo''" posixRelative
      "''/home/u''" "''../../tmp/foo''"]
    tmp_foo_escapes ls_la_not_dangerous
  by (simp add: writeContext_def shellContext_def truthy_str_def or_str_def assessCommandSafety_def)

text \<open>
  Under policy \<open>auto-edit\<close> the safe command \<open>ls -la\<close> together with the affected path
  \<open>/tmp/foo\<close> outside the cwd \<open>/home/u\<close> is approved: the classifier's approval is returned
  before the paths are looked at.
\<close>

theorem approved_command_skips_paths_counterexample:
  "isMutating ((shellContext ''ls -la'' False)\<lparr>affectedPaths := [''/tmp/foo'']\<rparr>)
   \<and> assessCommandSafety AUTO_EDIT ''ls -la'' \<noteq> REJECTED
   \<and> posixRelative ''/home/u'' ''/tmp/foo'' = Some ''../../tmp/foo''
   \<and> startsWith ''..'' ''../../tmp/foo''
   \<and> checkApproval posixRelative AUTO_EDIT ''/home/u''
        ((shellContext ''ls -la'' False)\<lparr>affectedPaths := [''/tmp/foo'']\<rparr>) = APPROVED"
  using tmp_foo_escapes ls_la_not_dangerous ls_la_safe
  by (simp add: shellContext_def checkApproval_def assessCommandSafety_def truthy_str_def or_str_def)

subsection \<open>Sub-agent tool and tool registry\<close>

lemma eventLoop_coherent:
  assumes "running st"
  shows "coherent (snd (eventLoop deadline evs st))"
  using assms
proof (induction evs arbitrary: st)
  case Nil
  then show ?case by (simp add: running_def coherent_def)
next
  case (Cons p evs)
  obtain now ev where p: "p = (now, ev)" by (cases p) auto
  show ?case
  proof (cases "now > deadline")
    case True
    then show ?thesis using Cons.prems by (simp add: p running_def coherent_def)
  next
    case False
    show ?thesis
    proof (cases ev)
      case (AgentEnd response)
      have "running (if finalResponse st = None
                then st\<lparr>finalResponse := (if truthy_str response then response else None)\<rparr>
                else st)"
        using Cons.prems by (simp add: running_def)
      from Cons.IH [OF this] show ?thesis using False by (simp add: p AgentEnd)
    next
      case (AgentError err)
      then show ?thesis using False
        by (simp add: p coherent_def truthy_str_def or_str_def split: option.splits)
    next
      case (AgentToolCallStart name)
      have "running (st\<lparr>toolCalls_seen := toolCalls_seen st @ [name]\<rparr>)"
        using Cons.prems by (simp add: running_def)
      from Cons.IH [OF this] show ?thesis using False by (simp add: p AgentToolCallStart)
    next
      case (AgentTextComplete c)
      have "running (st\<lparr>finalResponse := Some c\<rparr>)"
        using Cons.prems by (simp add: running_def)
      from Cons.IH [OF this] show ?thesis using False by (simp add: p AgentTextComplete)
    next
      case (AgentStart m)
      from Cons.IH [OF Cons.prems] show ?thesis using False by (simp add: p AgentStart)
    next
      case (AgentToolCallComplete n)
      from Cons.IH [OF Cons.prems] show ?thesis using False by (simp add: p AgentToolCallComplete)
    next
      case (AgentTextDelta t)
      from Cons.IH [OF Cons.prems] show ?thesis using False by (simp add: p AgentTextDelta)
    qed
  qed
qed

lemma failed_coherent: "e \<noteq> [] \<Longrightarrow> coherent (failed e st)"
  by (simp add: failed_def coherent_def truthy_str_def)

lemma runSubagent_coherent:
  assumes "initThrows run \<noteq> Some []" "runThrows run \<noteq> Some []" "closeThrows run \<noteq> Some []"
  shows "coherent (runSubagent defn run)"
proof -
  define deadline where "deadline = startedAt run
                 + (case timeoutSeconds defn of
                      None \<Rightarrow> 600
                    | Some t \<Rightarrow> if t = 0 then 600 else t) * 1000"
  obtain left st where l: "eventLoop deadline (events run) initialSubagentState = (left, st)"
    by (cases "eventLoop deadline (events run) initialSubagentState") auto
  have "running initialSubagentState"
    by (simp add: initialSubagentState_def running_def)
  from eventLoop_coherent [OF this, of deadline "events run"] have c: "coherent st"
    by (simp add: l)
  show ?thesis using assms c failed_coherent
    by (auto simp: runSubagent_def Let_def deadline_def [symmetric] l split: option.splits if_splits)
qed

lemma subagent_success_iff:
  assumes "subagent_execute defn run invocation = Inr r"
    and "parseGoal (inv_params invocation) = Some goal" and "goal \<noteq> []"
    and "initThrows run \<noteq> Some []" "runThrows run \<noteq> Some []" "closeThrows run \<noteq> Some []"
  shows "success r \<longleftrightarrow> terminateResponse (runSubagent defn run) \<noteq> ''error''"
proof -
  from runSubagent_coherent [OF assms(4-6), of defn]
  have c: "coherent (runSubagent defn run)" .
  have s: "success r \<longleftrightarrow> \<not> truthy_str (sub_error (runSubagent defn run))"
    using assms(1-3)
    by (auto simp: subagent_execute_def Let_def errorResult_def successResult_def split: if_splits)
  show ?thesis using c unfolding s
    by (auto simp: coherent_def truthy_str_def)
qed

lemma slow_state:
  "runSubagent slowDefinition slowRun =
     \<lparr>toolCalls_seen = [], finalResponse = Some ''Sub-agent timed out'', sub_error = None,
      terminateResponse = ''timeout''\<rparr>"
  by (simp add: runSubagent_def slowDefinition_def slowRun_def initialSubagentState_def)

text \<open>
  Claim C2. The result of the sub-agent tool is meant to be successful exactly when the run
  terminated with reason \<open>goal\<close>. The code reports a failure exactly when the
  termination reason is \<open>error\<close> (\<open>subagent_success_iff\<close>, for thrown values that do not
  render as the empty string): a run that terminates with \<open>goal\<close> is a success and a run
  ended by an \<open>AGENT_ERROR\<close> event is a failure, but a run that exceeds its deadline is a
  success too. With a timeout of one second and a first model answer after 2.5 seconds
  the termination reason is \<open>timeout\<close>, the text reports it, and the result is a success
  result.
\<close>

theorem subagent_timeout_reports_success:
  "terminateResponse (runSubagent slowDefinition slowRun) = ''timeout''
   \<and> subagent_execute slowDefinition slowRun goalInvocation =
       Inr (successResult
              (''Sub-agent '' @ [CHR 0x27] @ ''test_timeout'' @ [CHR 0x27] @ '' completed.'' @ [CHR 0x0A]
               @ ''Termination: timeout'' @ [CHR 0x0A]
               @ ''Tools called: None'' @ [CHR 0x0A, CHR 0x0A]
               @ ''Result:'' @ [CHR 0x0A]
               @ ''Sub-agent timed out'' @ [CHR 0x0A]) [] None)
   \<and> map_sum id success (subagent_execute slowDefinition slowRun goalInvocation) = Inr True"
proof -
  have t: "resultText slowDefinition (runSubagent slowDefinition slowRun) =
            ''Sub-agent '' @ [CHR 0x27] @ ''test_timeout'' @ [CHR 0x27] @ '' completed.'' @ [CHR 0x0A]
               @ ''Termination: timeout'' @ [CHR 0x0A]
               @ ''Tools called: None'' @ [CHR 0x0A, CHR 0x0A]
               @ ''Result:'' @ [CHR 0x0A]
               @ ''Sub-agent timed out'' @ [CHR 0x0A]"
    unfolding resultText_def slow_state by (simp add: slowDefinition_def or_str_def)
  have e: "subagent_execute slowDefinition slowRun goalInvocation =
            Inr (successResult (resultText slowDefinition (runSubagent slowDefinition slowRun)) [] None)"
    unfolding subagent_execute_def Let_def slow_state
    by (simp add: parseGoal_def goalInvocation_def truthy_str_def)
  show ?thesis
    unfolding e t by (simp add: slow_state successResult_def)
qed

lemma afterToolResults_simps:
  "afterToolResults [] = []"
  "afterToolResults (AfterTool n p r # tr) = r # afterToolResults tr"
  "afterToolResults (BeforeTool n p # tr) = afterToolResults tr"
  "afterToolResults (Execute i # tr) = afterToolResults tr"
  by (simp_all add: afterToolResults_def)

lemma beforeToolCount_simps:
  "beforeToolCount [] = 0"
  "beforeToolCount (AfterTool n p r # tr) = beforeToolCount tr"
  "beforeToolCount (BeforeTool n p # tr) = Suc (beforeToolCount tr)"
  "beforeToolCount (Execute i # tr) = beforeToolCount tr"
  by (simp_all add: beforeToolCount_def)

lemma invoke_hooks_when_returning:
  assumes "invoke relative reg name params dir mgr = (tr, Inr r)"
  shows "afterToolResults tr = [r]"
    and "last tr = AfterTool name params r"
    and "beforeToolCount tr = (if passesLookupAndValidation reg name params then 1 else 0)"
    and "passesLookupAndValidation reg name params \<Longrightarrow>
           tr = [BeforeTool name params, AfterTool name params r]
           \<or> tr = [BeforeTool name params, Execute \<lparr>inv_params = params, inv_cwd = dir\<rparr>,
                    AfterTool name params r]"
  using assms
  by (auto simp: invoke_def Let_def passesLookupAndValidation_def afterToolResults_simps
        beforeToolCount_simps split: option.splits if_splits sum.splits)

lemma invoke_beforeTool_iff:
  "beforeToolCount (fst (invoke relative reg name params dir mgr))
     = (if passesLookupAndValidation reg name params then 1 else 0)"
  by (auto simp: invoke_def Let_def passesLookupAndValidation_def beforeToolCount_simps
        split: option.splits if_splits sum.splits)

text \<open>
  Claim C6. When \<open>invoke\<close> returns a result, \<open>afterTool\<close> has fired exactly once, last and
  with that result, \<open>beforeTool\<close> has fired exactly when lookup and validation succeeded,
  and \<open>beforeTool\<close>, \<open>execute\<close>, \<open>afterTool\<close> come in this order
  (\<open>invoke_hooks_when_returning\<close>). An invocation does not always return a result: the
  confirmation of the tool is asked for outside the \<open>try\<close> block that guards \<open>execute\<close>.
  For an edit of a path that is a directory, with an approval manager present,
  \<open>beforeTool\<close> fires, the confirmation throws, and \<open>invoke\<close> rejects without \<open>afterTool\<close>
  having fired.
\<close>

theorem invoke_confirmation_throws:
  "passesLookupAndValidation (editRegistry run) ''edit'' (editParams ''/home/u/project/src'')
   \<and> invoke posixRelative (editRegistry run) ''edit'' (editParams ''/home/u/project/src'')
         ''/home/u/project'' (Some sessionApproval)
       = ([BeforeTool ''edit'' (editParams ''/home/u/project/src'')],
          Inl ''EISDIR: illegal operation on a directory, read'')
   \<and> afterToolResults
        (fst (invoke posixRelative (editRegistry run) ''edit'' (editParams ''/home/u/project/src'')
                ''/home/u/project'' (Some sessionApproval))) = []"
  by (simp add: invoke_def registry_get_def editRegistry_def editTool_def editParams_def
      approvalGate_def passesLookupAndValidation_def afterToolResults_simps stringParam_def
      projectFiles_def editValidate_def fieldErrors_def)

lemma invoke_edit_file:
  assumes "run \<lparr>inv_params = editParams ''/home/u/project/README.md'', inv_cwd = ''/home/u/project''\<rparr>
             = Inr r"
  shows "invoke posixRelative (editRegistry run) ''edit'' (editParams ''/home/u/project/README.md'')
           ''/home/u/project'' (Some sessionApproval)
         = ([BeforeTool ''edit'' (editParams ''/home/u/project/README.md''),
             Execute \<lparr>inv_params = editParams ''/home/u/project/README.md'',
                      inv_cwd = ''/home/u/project''\<rparr>,
             AfterTool ''edit'' (editParams ''/home/u/project/README.md'') r],
            Inr r)"
proof -
  have gate: "approvalGate posixRelative (editTool projectFiles run) ''edit''
                (editParams ''/home/u/project/README.md'')
                \<lparr>inv_params = editParams ''/home/u/project/README.md'', inv_cwd = ''/home/u/project''\<rparr>
                (Some sessionApproval) = Inr None"
    by (simp add: approvalGate_def editTool_def editParams_def stringParam_def projectFiles_def
        sessionApproval_def checkApproval_def posixRelative_def truthy_str_def)
  have valid: "validateParams (editTool projectFiles run) (editParams ''/home/u/project/README.md'') = []"
    by (simp add: editTool_def editParams_def editValidate_def fieldErrors_def)
  have ex: "execute (editTool projectFiles run) = run"
    by (simp add: editTool_def)
  show ?thesis
    by (simp add: invoke_def registry_get_def editRegistry_def valid gate ex assms)
qed

end
